theory Spec2Isabelle
  imports Main
begin

section \<open>The paged streaming iterator (src/cache/streamed\_collection.ts)\<close>

text \<open>
  A \<open>Cookie\<close> is \<^verbatim>\<open>Uint8Array | string | undefined\<close>: \<open>None\<close> is \<^verbatim>\<open>undefined\<close>,
  \<open>Some bs\<close> a byte string. The test \<^verbatim>\<open>cookie == null || cookie.length == 0\<close> of the
  'end' handler is \<open>cookie_is_empty\<close>.
\<close>

type_synonym Cookie = "string option"

definition cookie_is_empty :: "Cookie \<Rightarrow> bool" where
  "cookie_is_empty c = (case c of None \<Rightarrow> True | Some bs \<Rightarrow> length bs = 0)"

text \<open>
  \<^verbatim>\<open>IStreamedDataHelper<R, T>\<close>: \<open>extractCookie\<close> and \<open>handleEntry\<close> are pure; the third
  operation, \<^verbatim>\<open>loadNextPage(cookie)\<close>, starts a server-stream RPC. The server is modelled by
  the calls it will answer, in order: each answered call emits its \<open>msgs\<close> as 'data' events
  and then one 'end' or one 'error' event. \<open>requests\<close> logs the cookie of every RPC issued and
  \<open>console\<close> what the 'error' handler prints.
\<close>

record ('r, 't) IStreamedDataHelper =
  extractCookie :: "'r \<Rightarrow> Cookie"
  handleEntry :: "'r \<Rightarrow> 't"

datatype ending = End | Error string

record 'r call =
  msgs :: "'r list"
  ending :: ending

record 'r server =
  calls :: "'r call list"
  requests :: "Cookie list"
  console :: "string list"

text \<open>
  The fields of \<^verbatim>\<open>PageAdvancer\<close> and its constructor. The helper is not stored in the
  record: every operation takes it as its first argument.
\<close>

record 'r PageAdvancer =
  exhausted :: bool
  data :: "'r list"
  current :: int
  cookie :: Cookie

definition PageAdvancer_new :: "('r, 't) IStreamedDataHelper \<Rightarrow> 'r PageAdvancer" where
  "PageAdvancer_new helper = \<lparr>exhausted = False, data = [], current = - 1, cookie = None\<rparr>"

text \<open>
  The 'data' handler of \<^verbatim>\<open>loadNextPage\<close>, on the triple (\<^verbatim>\<open>firstEntry\<close>, the advancer,
  the local \<^verbatim>\<open>data\<close>): the first message of the stream only sets the cookie, every later
  one is pushed.
\<close>

fun onData :: "('r, 't) IStreamedDataHelper \<Rightarrow> 'r \<Rightarrow> bool \<times> 'r PageAdvancer \<times> 'r list
    \<Rightarrow> bool \<times> 'r PageAdvancer \<times> 'r list" where
  "onData h r (firstEntry, self, d) =
     (if firstEntry then (False, self\<lparr>cookie := extractCookie h r\<rparr>, d)
      else (firstEntry, self, d @ [r]))"

text \<open>
  How the promise of \<^verbatim>\<open>loadNextPage\<close> settles: resolved with the page's data on 'end',
  rejected on 'error', or never (\<open>Unsettled\<close>) when the model holds no answer for the call.
\<close>

datatype 'r page_promise = Resolved "'r list" | Rejected string | Unsettled

definition loadNextPage :: "('r, 't) IStreamedDataHelper \<Rightarrow> 'r PageAdvancer \<times> 'r server
    \<Rightarrow> 'r page_promise \<times> 'r PageAdvancer \<times> 'r server" where
  "loadNextPage h st =
     (case st of (self, srv) \<Rightarrow>
        let srv1 = srv\<lparr>requests := requests srv @ [cookie self]\<rparr>
        in (case calls srv of
              [] \<Rightarrow> (Unsettled, self, srv1)
            | c # cs \<Rightarrow>
                (case fold (onData h) (msgs c) (True, self, []) of
                   (firstEntry, self', d) \<Rightarrow>
                     (case ending c of
                        End \<Rightarrow>
                          (Resolved d,
                           self'\<lparr>exhausted := cookie_is_empty (cookie self')\<rparr>,
                           srv1\<lparr>calls := cs\<rparr>)
                      | Error err \<Rightarrow>
                          (Rejected err, self',
                           srv1\<lparr>calls := cs, console := console srv1 @ [''Error: '' @ err]\<rparr>)))))"

text \<open>
  What one \<^verbatim>\<open>next()\<close> call gives its caller: \<^verbatim>\<open>{value: v}\<close>, \<^verbatim>\<open>{done: true}\<close>,
  a rejection, or a promise that never settles.
\<close>

datatype 't outcome = Value 't | Done | Threw string | NoReply

lemma loadNextPage_calls:
  "loadNextPage h (self, srv) = (Resolved d, self', srv') \<Longrightarrow> length (calls srv') < length (calls srv)"
  by (auto simp: loadNextPage_def Let_def split: list.splits prod.splits ending.splits)

function (sequential) "next" :: "('r, 't) IStreamedDataHelper \<Rightarrow> 'r PageAdvancer \<times> 'r server
    \<Rightarrow> 't outcome \<times> 'r PageAdvancer \<times> 'r server" where
  "next h (self, srv) =
     (if length (data self) = 0 then
        (if \<not> exhausted self then
           (case loadNextPage h (self\<lparr>current := - 1\<rparr>, srv) of
              (Resolved d, self', srv') \<Rightarrow> next h (self'\<lparr>data := d\<rparr>, srv')
            | (Rejected err, self', srv') \<Rightarrow> (Threw err, self', srv')
            | (Unsettled, self', srv') \<Rightarrow> (NoReply, self', srv'))
         else (Done, self, srv))
      else (Value (handleEntry h (hd (data self))), self\<lparr>data := tl (data self)\<rparr>, srv))"
  by pat_completeness auto
termination
  by (relation "measure (\<lambda>(h, self, srv). length (calls srv))") (auto dest: loadNextPage_calls [OF sym])

text \<open>
  \<open>n\<close> successive \<^verbatim>\<open>next()\<close> calls of one consumer, each awaited before the following
  one is made: the outcomes in order and the state they leave. A call whose promise never
  settles is the last one the consumer makes.
\<close>

fun nexts :: "('r, 't) IStreamedDataHelper \<Rightarrow> nat \<Rightarrow> 'r PageAdvancer \<times> 'r server
    \<Rightarrow> 't outcome list \<times> 'r PageAdvancer \<times> 'r server" where
  "nexts h 0 st = ([], st)"
| "nexts h (Suc n) st =
     (case next h st of
        (r, st') \<Rightarrow>
          (if r = NoReply then ([r], st')
           else (case nexts h n st' of (rs, st'') \<Rightarrow> (r # rs, st''))))"

text \<open>
  A server that answers the successive page RPCs with the given pages, each delivered in
  full and ended normally.
\<close>

definition server_of :: "'r list list \<Rightarrow> 'r server" where
  "server_of pages = \<lparr>calls = map (\<lambda>p. \<lparr>msgs = p, ending = End\<rparr>) pages, requests = [], console = []\<rparr>"

subsection \<open>The three helpers\<close>

text \<open>
  The serializer (\<^verbatim>\<open>../util/serializer\<close>) is outside the verified sources: it is a
  parameter, a pair of functions between JavaScript values \<open>'j\<close> and bytes. A
  \<^verbatim>\<open>BytesValue\<close> is its bytes; an \<^verbatim>\<open>EntryResult\<close> carries a cookie, key bytes and value
  bytes.
\<close>

record 'j Serializer =
  serialize :: "'j \<Rightarrow> string"
  deserialize :: "string \<Rightarrow> 'j"

type_synonym BytesValue = string

record EntryResult =
  getCookie :: string
  getKey_asU8 :: string
  getValue_asU8 :: string

text \<open>
  \<^verbatim>\<open>NamedCacheEntry\<close> as its constructor leaves it: the bytes are stored, key and value are
  not deserialized yet.
\<close>

record 'j NamedCacheEntry =
  key :: "'j option"
  val :: "'j option"
  keyBytes :: string
  valueBytes :: string

definition NamedCacheEntry_new :: "string \<Rightarrow> string \<Rightarrow> 'j Serializer \<Rightarrow> 'j NamedCacheEntry" where
  "NamedCacheEntry_new kb vb serialzer = \<lparr>key = None, val = None, keyBytes = kb, valueBytes = vb\<rparr>"

definition KeySetHelper :: "'j Serializer \<Rightarrow> (BytesValue, 'j) IStreamedDataHelper" where
  "KeySetHelper ser = \<lparr>extractCookie = (\<lambda>e. Some e), handleEntry = (\<lambda>e. deserialize ser e)\<rparr>"

definition EntrySetHelper :: "'j Serializer \<Rightarrow> (EntryResult, 'j NamedCacheEntry) IStreamedDataHelper" where
  "EntrySetHelper ser =
     \<lparr>extractCookie = (\<lambda>e. Some (getCookie e)),
      handleEntry = (\<lambda>e. NamedCacheEntry_new (getKey_asU8 e) (getValue_asU8 e) ser)\<rparr>"

definition ValueSetHelper :: "'j Serializer \<Rightarrow> (EntryResult, 'j) IStreamedDataHelper" where
  "ValueSetHelper ser =
     \<lparr>extractCookie = (\<lambda>e. Some (getCookie e)),
      handleEntry = (\<lambda>e. deserialize ser (getValue_asU8 e))\<rparr>"

section \<open>The remote set views (src/cache/streamed\_collection.ts)\<close>

text \<open>
  A JavaScript value as far as the views look at it: \<^verbatim>\<open>undefined\<close>, \<^verbatim>\<open>null\<close>, a boolean,
  or any other value. \<^verbatim>\<open>v != null\<close> is the loose inequality: false for \<^verbatim>\<open>null\<close> and for
  \<^verbatim>\<open>undefined\<close>, true for everything else.
\<close>

datatype 'a jsval = JUndefined | JNull | JBool bool | JOther 'a

definition js_neq_null :: "'a jsval \<Rightarrow> bool" where
  "js_neq_null v = (case v of JUndefined \<Rightarrow> False | JNull \<Rightarrow> False | _ \<Rightarrow> True)"

text \<open>How a promise ends: fulfilled with a value, rejected with an error, or never settled.\<close>

datatype 'a promise = Fulfilled 'a | RejectedWith string | NeverSettles

text \<open>
  \<^verbatim>\<open>NamedCacheClient\<close> is outside the verified sources; the views only call five of its
  methods, which are taken as parameters: each acts on the remote cache \<open>'c\<close> and returns
  the promise's outcome.
\<close>

record ('k, 'v, 'c) NamedCacheClient =
  cache_clear :: "'c \<Rightarrow> unit promise \<times> 'c"
  cache_size :: "'c \<Rightarrow> nat promise \<times> 'c"
  cache_remove :: "'k \<Rightarrow> 'c \<Rightarrow> 'v jsval promise \<times> 'c"
  cache_containsKey :: "'k \<Rightarrow> 'c \<Rightarrow> bool promise \<times> 'c"
  cache_removeMapping :: "'k \<Rightarrow> 'v \<Rightarrow> 'c \<Rightarrow> bool promise \<times> 'c"

text \<open>
  A method either throws synchronously (\<open>Inl\<close> of the message of \<^verbatim>\<open>new Error(...)\<close>) or
  returns (\<open>Inr\<close>). The methods of the base class \<^verbatim>\<open>PagedSet\<close>:
\<close>

definition PagedSet_add :: "'t \<Rightarrow> string + unit" where
  "PagedSet_add v = Inl ''add not allowed on paged set.''"

definition PagedSet_clear :: "('k, 'v, 'c) NamedCacheClient \<Rightarrow> 'c \<Rightarrow> (string + unit promise) \<times> 'c" where
  "PagedSet_clear namedCache c = (case cache_clear namedCache c of (p, c') \<Rightarrow> (Inr p, c'))"

definition PagedSet_delete :: "'t \<Rightarrow> string + bool jsval promise" where
  "PagedSet_delete v = Inl ''Method not implemented.''"

definition PagedSet_forEach :: "'f \<Rightarrow> string + unit" where
  "PagedSet_forEach callbackfn = Inl ''only async iterator supported.''"

definition PagedSet_has :: "'t \<Rightarrow> string + bool promise" where
  "PagedSet_has v = Inl ''Method not implemented.''"

definition PagedSet_size :: "('k, 'v, 'c) NamedCacheClient \<Rightarrow> 'c \<Rightarrow> (string + nat promise) \<times> 'c" where
  "PagedSet_size namedCache c = (case cache_size namedCache c of (p, c') \<Rightarrow> (Inr p, c'))"

definition PagedSet_iterator :: "string + unit" where
  "PagedSet_iterator = Inl ''only async iterator supported.''"

definition PagedSet_entries :: "string + unit" where
  "PagedSet_entries = Inl ''only async iterator supported.''"

definition PagedSet_keys :: "string + unit" where
  "PagedSet_keys = Inl ''only async iterator supported.''"

definition PagedSet_values :: "string + unit" where
  "PagedSet_values = Inl ''only async iterator supported.''"

text \<open>
  \<^verbatim>\<open>KeySet\<close> overrides \<open>delete\<close> and \<open>has\<close>. In \<open>delete\<close> the value resolved is
  \<^verbatim>\<open>v != null || undefined\<close>, that is \<^verbatim>\<open>(v != null) || undefined\<close>: \<^verbatim>\<open>true\<close> when the
  comparison holds and otherwise the right operand, \<^verbatim>\<open>undefined\<close>. The inner promise has
  no rejection handler, so when \<^verbatim>\<open>remove\<close> rejects (or never settles) the promise returned
  is never settled.
\<close>

definition KeySet_delete :: "('k, 'v, 'c) NamedCacheClient \<Rightarrow> 'k \<Rightarrow> 'c
    \<Rightarrow> (string + bool jsval promise) \<times> 'c" where
  "KeySet_delete namedCache k c =
     (case cache_remove namedCache k c of
        (Fulfilled v, c') \<Rightarrow>
          (Inr (Fulfilled (if js_neq_null v then JBool True else JUndefined)), c')
      | (RejectedWith err, c') \<Rightarrow> (Inr NeverSettles, c')
      | (NeverSettles, c') \<Rightarrow> (Inr NeverSettles, c'))"

definition KeySet_has :: "('k, 'v, 'c) NamedCacheClient \<Rightarrow> 'k \<Rightarrow> 'c
    \<Rightarrow> (string + bool promise) \<times> 'c" where
  "KeySet_has namedCache k c = (case cache_containsKey namedCache k c of (p, c') \<Rightarrow> (Inr p, c'))"

text \<open>\<^verbatim>\<open>EntrySet\<close> overrides \<open>delete\<close> only; \<^verbatim>\<open>ValueSet\<close> overrides it with a throw.\<close>

definition EntrySet_delete :: "('k, 'v, 'c) NamedCacheClient \<Rightarrow> 'k \<times> 'v \<Rightarrow> 'c
    \<Rightarrow> (string + bool promise) \<times> 'c" where
  "EntrySet_delete namedCache e c =
     (case cache_removeMapping namedCache (fst e) (snd e) c of (p, c') \<Rightarrow> (Inr p, c'))"

definition ValueSet_delete :: "'v \<Rightarrow> string + bool promise" where
  "ValueSet_delete e = Inl ''delete not allowed on paged value set.''"

text \<open>
  Method lookup through the class hierarchy: each name of a view resolves to the view's
  own override where it has one and to the method of \<^verbatim>\<open>PagedSet\<close> otherwise.
\<close>

datatype view = KeySet | EntrySet | ValueSet

datatype ('k, 'v) arg = AKey 'k | AnEntry 'k 'v | AValue 'v

definition view_add :: "view \<Rightarrow> ('k, 'v) arg \<Rightarrow> string + unit" where
  "view_add w x = PagedSet_add x"

definition view_forEach :: "view \<Rightarrow> 'f \<Rightarrow> string + unit" where
  "view_forEach w callbackfn = PagedSet_forEach callbackfn"

definition view_iterator :: "view \<Rightarrow> string + unit" where
  "view_iterator w = PagedSet_iterator"

definition view_entries :: "view \<Rightarrow> string + unit" where
  "view_entries w = PagedSet_entries"

definition view_keys :: "view \<Rightarrow> string + unit" where
  "view_keys w = PagedSet_keys"

definition view_values :: "view \<Rightarrow> string + unit" where
  "view_values w = PagedSet_values"

text \<open>
  \<open>has\<close> is typed by the view's element type: a \<^verbatim>\<open>KeySet\<close> is only ever asked for keys.
\<close>

fun view_has :: "view \<Rightarrow> ('k, 'v, 'c) NamedCacheClient \<Rightarrow> ('k, 'v) arg \<Rightarrow> 'c
    \<Rightarrow> (string + bool promise) \<times> 'c" where
  "view_has KeySet namedCache (AKey k) c = KeySet_has namedCache k c"
| "view_has w namedCache x c = (PagedSet_has x, c)"

text \<open>
  A remote cache for the runs evaluated below: an association list from keys to values,
  whose \<open>remove\<close> resolves to the prior value, \<^verbatim>\<open>null\<close> when there is none.
\<close>

definition alist_cache :: "(string, string, (string \<times> string) list) NamedCacheClient" where
  "alist_cache =
     \<lparr>cache_clear = (\<lambda>c. (Fulfilled (), [])),
      cache_size = (\<lambda>c. (Fulfilled (length c), c)),
      cache_remove = (\<lambda>k c. (Fulfilled (case map_of c k of None \<Rightarrow> JNull | Some v \<Rightarrow> JOther v),
                               filter (\<lambda>p. fst p \<noteq> k) c)),
      cache_containsKey = (\<lambda>k c. (Fulfilled (map_of c k \<noteq> None), c)),
      cache_removeMapping = (\<lambda>k v c. (Fulfilled (map_of c k = Some v),
                               if map_of c k = Some v then filter (\<lambda>p. fst p \<noteq> k) c else c))\<rparr>"

section \<open>The event multiplexer (src/event/map-events-manager.ts)\<close>

subsection \<open>JavaScript maps and strings\<close>

text \<open>
  A JavaScript \<^verbatim>\<open>Map\<close> keeps its entries in insertion order: \<^verbatim>\<open>set\<close> on a key already
  present replaces the value in place, on a new key it appends; \<^verbatim>\<open>delete\<close> removes the
  entry. Keys are compared by identity, which the key types \<open>'l\<close> (listeners), \<open>'k\<close>
  (map keys) and \<open>'f\<close> (filters) stand for.
\<close>

type_synonym ('a, 'b) jsmap = "('a \<times> 'b) list"

definition Map_get :: "('a, 'b) jsmap \<Rightarrow> 'a \<Rightarrow> 'b option" where
  "Map_get m k = map_of m k"

fun Map_set :: "'a \<Rightarrow> 'b \<Rightarrow> ('a, 'b) jsmap \<Rightarrow> ('a, 'b) jsmap" where
  "Map_set k v [] = [(k, v)]"
| "Map_set k v (p # ps) = (if fst p = k then (k, v) # ps else p # Map_set k v ps)"

definition Map_delete :: "'a \<Rightarrow> ('a, 'b) jsmap \<Rightarrow> ('a, 'b) jsmap" where
  "Map_delete k m = filter (\<lambda>p. fst p \<noteq> k) m"

definition Map_size :: "('a, 'b) jsmap \<Rightarrow> nat" where
  "Map_size m = length m"

definition Map_keys :: "('a, 'b) jsmap \<Rightarrow> 'a list" where
  "Map_keys m = map fst m"

text \<open>
  \<^verbatim>\<open>String.prototype.indexOf\<close>: the first position at which the pattern occurs, \<open>- 1\<close>
  when it does not occur. A number is truthy when it is not zero.
\<close>

fun indexOf_from :: "string \<Rightarrow> string \<Rightarrow> nat \<Rightarrow> int" where
  "indexOf_from [] pat i = (if pat = [] then int i else - 1)"
| "indexOf_from (c # cs) pat i =
     (if take (length pat) (c # cs) = pat then int i else indexOf_from cs pat (Suc i))"

definition indexOf :: "string \<Rightarrow> string \<Rightarrow> int" where
  "indexOf s pat = indexOf_from s pat 0"

definition truthy_number :: "int \<Rightarrow> bool" where
  "truthy_number n = (n \<noteq> 0)"

subsection \<open>Messages\<close>

text \<open>
  The subscription target of a group, \<^verbatim>\<open>keyOrFilter: K | MapEventFilter\<close>. A null filter
  is replaced by the singleton \<^verbatim>\<open>MapEventsManager.DEFAULT_FILTER\<close>.
\<close>

datatype 'f filter_ref = DEFAULT_FILTER | UserFilter 'f

datatype ('k, 'f) target = OfKey 'k | OfFilter "'f filter_ref"

text \<open>
  \<^verbatim>\<open>MapListenerRequest\<close> (the generated messages are outside the verified sources): the
  fields the manager reads are \<open>getUid\<close>, \<open>getKey\<close> and \<open>getFilterid\<close>; the others
  say what was asked for. A uid is a non-empty string unique to its request; it is modelled
  by the sequence number of the request.
\<close>

datatype request_type = INIT | SUBSCRIBE | UNSUBSCRIBE

record 'f MapListenerRequest =
  getUid :: nat
  getType :: request_type
  getLite :: bool
  getKey :: string
  getFilter :: "'f filter_ref option"
  getFilterid :: nat

text \<open>
  \<^verbatim>\<open>MapEvent\<close> (outside the verified sources) as the manager uses it: its id, its
  deserialized key and the filter ids of the raw event. The ids other than the three entry
  events fall through the \<^verbatim>\<open>switch\<close> of \<^verbatim>\<open>notifyListeners\<close>.
\<close>

datatype event_id = ENTRY_INSERTED | ENTRY_UPDATED | ENTRY_DELETED | OTHER_ID

record 'k MapEvent =
  getId :: event_id
  getEventKey :: 'k
  getFilteridsList :: "nat list"

text \<open>
  \<^verbatim>\<open>MapListenerResponse\<close>: the uid of an acknowledgement is \<open>None\<close> when it is missing or
  the empty string (the falsy cases of \<^verbatim>\<open>if (uid)\<close>).
\<close>

datatype 'k response =
    Subscribed "nat option"
  | Unsubscribed "nat option"
  | Destroyed string
  | Truncated string
  | Event "'k MapEvent"
  | RESPONSE_TYPE_NOT_SET

subsection \<open>The collaborators\<close>

text \<open>
  What the manager is constructed with, and the listeners' behaviour. \<open>listenerSink\<close> is what
  a listener's \<^verbatim>\<open>entryInserted\<close>, \<^verbatim>\<open>entryUpdated\<close> or \<^verbatim>\<open>entryDeleted\<close> method does with an
  event: return (\<open>None\<close>) or throw (\<open>Some err\<close>). \<open>filterIdOf\<close> is the filter id the request
  factory gives the request with a sequence number for a filter.
\<close>

record ('l, 'k, 'f) collaborators =
  mapName :: string
  serializer :: "'k Serializer"
  filterIdOf :: "nat \<Rightarrow> 'f filter_ref \<Rightarrow> nat"
  listenerSink :: "'l \<Rightarrow> event_id \<Rightarrow> 'k MapEvent \<Rightarrow> string option"

text \<open>
  Modelled from the spec: the request factory (\<^verbatim>\<open>util/request-factory\<close>) is outside the
  verified sources. It stamps every request with a unique correlation id; a key request
  carries the serialized key bytes, a filter request the filter and a filter id. The state of
  the factory is the number of requests built so far.
\<close>

definition mapEventSubscribe :: "('l, 'k, 'f) collaborators \<Rightarrow> nat \<Rightarrow> 'f MapListenerRequest \<times> nat" where
  "mapEventSubscribe env n =
     (\<lparr>getUid = n, getType = INIT, getLite = False, getKey = [], getFilter = None, getFilterid = 0\<rparr>,
      Suc n)"

definition mapListenerRequest :: "('l, 'k, 'f) collaborators \<Rightarrow> bool \<Rightarrow> ('k, 'f) target \<Rightarrow> bool option
    \<Rightarrow> nat \<Rightarrow> 'f MapListenerRequest \<times> nat" where
  "mapListenerRequest env subscribe keyOrFilter isLite n =
     (\<lparr>getUid = n,
       getType = (if subscribe then SUBSCRIBE else UNSUBSCRIBE),
       getLite = (isLite = Some True),
       getKey = (case keyOrFilter of OfKey k \<Rightarrow> serialize (serializer env) k | OfFilter f \<Rightarrow> []),
       getFilter = (case keyOrFilter of OfKey k \<Rightarrow> None | OfFilter f \<Rightarrow> Some f),
       getFilterid = (case keyOrFilter of OfKey k \<Rightarrow> 0 | OfFilter f \<Rightarrow> filterIdOf env n f)\<rparr>,
      Suc n)"

text \<open>The requests \<^verbatim>\<open>doSubscribe\<close> and \<^verbatim>\<open>doUnsubscribe\<close> ask the factory for.\<close>

definition subscribeRequest :: "('l, 'k, 'f) collaborators \<Rightarrow> ('k, 'f) target \<Rightarrow> bool \<Rightarrow> nat
    \<Rightarrow> 'f MapListenerRequest" where
  "subscribeRequest env t isLite n = fst (mapListenerRequest env True t (Some isLite) n)"

definition unsubscribeRequest :: "('l, 'k, 'f) collaborators \<Rightarrow> ('k, 'f) target \<Rightarrow> nat
    \<Rightarrow> 'f MapListenerRequest" where
  "unsubscribeRequest env t n = fst (mapListenerRequest env False t None n)"

subsection \<open>Listener groups\<close>

text \<open>
  The fields of \<^verbatim>\<open>ListenerGroup\<close>. The class of a group follows from its target: a
  \<^verbatim>\<open>KeyListenerGroup\<close> has a key, a \<^verbatim>\<open>FilterListenerGroup\<close> a filter.
\<close>

record ('l, 'k, 'f) ListenerGroup =
  isActive :: bool
  keyOrFilter :: "('k, 'f) target"
  registeredIsLite :: bool
  listeners :: "('l, bool) jsmap"
  isLiteFalseCount :: int

definition ListenerGroup_new :: "('k, 'f) target \<Rightarrow> ('l, 'k, 'f) ListenerGroup" where
  "ListenerGroup_new t =
     \<lparr>isActive = True, keyOrFilter = t, registeredIsLite = True, listeners = [], isLiteFalseCount = 0\<rparr>"

text \<open>
  \<^verbatim>\<open>addListener\<close> and \<^verbatim>\<open>removeListener\<close> change the fields of the group before their
  first \<^verbatim>\<open>await\<close>; what they await afterwards, in order, is returned as a list of steps.
\<close>

datatype step = DoUnsubscribe | DoSubscribe bool

definition group_addListener :: "'l \<Rightarrow> bool \<Rightarrow> ('l, 'k, 'f) ListenerGroup
    \<Rightarrow> ('l, 'k, 'f) ListenerGroup \<times> step list" where
  "group_addListener listener isLite g =
     (let prevStatus = Map_get (listeners g) listener
      in if prevStatus \<noteq> None \<and> prevStatus = Some isLite then (g, [])
         else
           let g1 = g\<lparr>listeners := Map_set listener isLite (listeners g)\<rparr>;
               g2 = (if \<not> isLite then g1\<lparr>isLiteFalseCount := isLiteFalseCount g1 + 1\<rparr> else g1);
               requireRegistrationRequest =
                 (Map_size (listeners g2) = 1 \<or> registeredIsLite g2 \<and> \<not> isLite)
           in if requireRegistrationRequest
              then (g2\<lparr>registeredIsLite := isLite\<rparr>,
                    (if Map_size (listeners g2) > 1 then [DoUnsubscribe] else []) @ [DoSubscribe isLite])
              else (g2, []))"

definition group_removeListener :: "'l \<Rightarrow> ('l, 'k, 'f) ListenerGroup
    \<Rightarrow> ('l, 'k, 'f) ListenerGroup \<times> step list" where
  "group_removeListener listener g =
     (case Map_get (listeners g) listener of
        None \<Rightarrow> (g, [])
      | Some prevIsLite \<Rightarrow>
          if Map_size (listeners g) = 0 then (g, [])
          else
            let g1 = g\<lparr>listeners := Map_delete listener (listeners g)\<rparr>
            in if Map_size (listeners g1) = 0 then (g1, [DoUnsubscribe])
               else if \<not> prevIsLite then
                 let g2 = g1\<lparr>isLiteFalseCount := isLiteFalseCount g1 - 1\<rparr>
                 in if isLiteFalseCount g2 = 0 then (g2, [DoUnsubscribe, DoSubscribe True])
                    else (g2, [])
               else (g1, []))"

text \<open>
  \<^verbatim>\<open>notifyListeners\<close>: the loop over \<^verbatim>\<open>this.listeners.keys()\<close>. Each call of a listener's
  method is logged; there is no \<^verbatim>\<open>try\<close> in the loop, so a throw leaves it at once. The
  result is the error thrown, if any, and the calls made.
\<close>

fun notify_loop :: "('l, 'k, 'f) collaborators \<Rightarrow> 'k MapEvent \<Rightarrow> 'l list
    \<Rightarrow> string option \<times> ('l \<times> event_id) list" where
  "notify_loop env mapEvent [] = (None, [])"
| "notify_loop env mapEvent (listener # rest) =
     (if getId mapEvent = OTHER_ID then notify_loop env mapEvent rest
      else
        (case listenerSink env listener (getId mapEvent) mapEvent of
           Some err \<Rightarrow> (Some err, [(listener, getId mapEvent)])
         | None \<Rightarrow>
             (case notify_loop env mapEvent rest of
                (r, called) \<Rightarrow> (r, (listener, getId mapEvent) # called))))"

definition notifyListeners :: "('l, 'k, 'f) collaborators \<Rightarrow> ('l, 'k, 'f) ListenerGroup \<Rightarrow> 'k MapEvent
    \<Rightarrow> string option \<times> ('l \<times> event_id) list" where
  "notifyListeners env g mapEvent = notify_loop env mapEvent (Map_keys (listeners g))"

subsection \<open>The state of the manager\<close>

text \<open>
  The manager is single-threaded and asynchronous. Each call of its interface and each event
  of the duplex stream runs to the point where every promise chain waits for the stream; what
  a chain does when it is resumed is kept as data:
  \<^item> a \<open>continuation\<close> is the rest of an \<^verbatim>\<open>addListener\<close> or \<^verbatim>\<open>removeListener\<close> call that
    awaits the acknowledgement of one request: the group, whether the request subscribes,
    and the steps still to run after the hook for that request;
  \<^item> a \<open>callback\<close> is an entry of \<^verbatim>\<open>pendingSubscriptions\<close>: the one \<^verbatim>\<open>ensureStream\<close>
    registers for the INIT request of a stream, or the one \<^verbatim>\<open>writeRequest\<close> registers;
  \<^item> a \<open>waiter\<close> is a \<^verbatim>\<open>then\<close> on the stream promise that has not run yet: a
    \<^verbatim>\<open>writeRequest\<close>, or the rest of \<^verbatim>\<open>closeEventStream\<close>.
  Groups are objects shared between the three maps and the continuations: they live in a
  store, and the maps hold their addresses (positions in the store).
\<close>

record continuation =
  cont_group :: nat
  cont_subscribe :: bool
  cont_rest :: "step list"

datatype 'f callback = InitCallback nat | RequestCallback continuation "'f MapListenerRequest"

datatype 'f waiter = WriteWaiter "'f MapListenerRequest" continuation | CloseWaiter

datatype 'f stream_promise = PromisePending nat "'f waiter list" | PromiseResolved nat

text \<open>
  What the manager does to the outside: on the gRPC client (\<open>Events\<close> is a call of
  \<^verbatim>\<open>client.events()\<close>, giving the stream with that number), on the emitter, and to its
  callers' promises.
\<close>

datatype 'f wire_action = Events nat | Write nat "'f MapListenerRequest" | Cancel nat

datatype emission =
    EmitDestroyed string
  | EmitTruncated string
  | EmitError string "string option"

datatype settlement = AckResolved nat | AckRejected nat string | StreamRejected nat string

record ('l, 'k, 'f) MapEventsManager =
  streamPromise :: "'f stream_promise option"
  markedForClose :: bool
  pendingSubscriptions :: "(nat, 'f callback) jsmap"
  keyMap :: "('k, nat) jsmap"
  filterMap :: "('f filter_ref, nat) jsmap"
  filterId2ListenerGroup :: "(nat, nat) jsmap"
  store :: "('l, 'k, 'f) ListenerGroup list"
  reqFactory :: nat
  streamsOpened :: nat
  closeHandlerOn :: "nat option"
  closeResolved :: bool
  wire :: "'f wire_action list"
  emitted :: "emission list"
  settled :: "settlement list"
  notified :: "('l \<times> event_id) list"
  uncaught :: "string list"

definition deref :: "('l, 'k, 'f) MapEventsManager \<Rightarrow> nat \<Rightarrow> ('l, 'k, 'f) ListenerGroup option" where
  "deref self gid = (if gid < length (store self) then Some (store self ! gid) else None)"

subsection \<open>The stream\<close>

text \<open>
  \<^verbatim>\<open>ensureStream\<close>: when \<^verbatim>\<open>streamPromise\<close> is null, open the duplex stream, register the
  callback of the INIT request and write it.
\<close>

definition ensureStream :: "('l, 'k, 'f) collaborators \<Rightarrow> ('l, 'k, 'f) MapEventsManager
    \<Rightarrow> ('l, 'k, 'f) MapEventsManager" where
  "ensureStream env self =
     (if streamPromise self = None then
        (let bidiStream = streamsOpened self;
             (request, n) = mapEventSubscribe env (reqFactory self);
             initUid = getUid request
         in self\<lparr>streamsOpened := Suc bidiStream,
                 reqFactory := n,
                 pendingSubscriptions := Map_set initUid (InitCallback bidiStream) (pendingSubscriptions self),
                 wire := wire self @ [Events bidiStream, Write bidiStream request],
                 streamPromise := Some (PromisePending bidiStream [])\<rparr>)
      else self)"

text \<open>
  The constructor: the field initialisers, the three maps, and
  \<^verbatim>\<open>this.streamPromise = this.ensureStream()\<close>.
\<close>

definition MapEventsManager_new :: "('l, 'k, 'f) collaborators \<Rightarrow> ('l, 'k, 'f) MapEventsManager" where
  "MapEventsManager_new env =
     ensureStream env
       \<lparr>streamPromise = None, markedForClose = False, pendingSubscriptions = [],
        keyMap = [], filterMap = [], filterId2ListenerGroup = [],
        store = [], reqFactory = 0, streamsOpened = 0, closeHandlerOn = None, closeResolved = False,
        wire = [], emitted = [], settled = [], notified = [], uncaught = []\<rparr>"

text \<open>
  The body of the \<^verbatim>\<open>then\<close> of \<^verbatim>\<open>writeRequest\<close>, run once the stream is there: register
  the callback under the uid of the request, then write the request.
\<close>

definition write_on :: "nat \<Rightarrow> 'f MapListenerRequest \<Rightarrow> continuation \<Rightarrow> ('l, 'k, 'f) MapEventsManager
    \<Rightarrow> ('l, 'k, 'f) MapEventsManager" where
  "write_on stream request k self =
     self\<lparr>pendingSubscriptions :=
            Map_set (getUid request) (RequestCallback k request) (pendingSubscriptions self),
          wire := wire self @ [Write stream request]\<rparr>"

text \<open>
  The rest of \<^verbatim>\<open>closeEventStream\<close> after \<^verbatim>\<open>await self.streamPromise\<close>: install the
  'error' handler on the stream and cancel it.
\<close>

definition close_on :: "nat \<Rightarrow> ('l, 'k, 'f) MapEventsManager \<Rightarrow> ('l, 'k, 'f) MapEventsManager" where
  "close_on bidiStream self =
     self\<lparr>closeHandlerOn := Some bidiStream, wire := wire self @ [Cancel bidiStream]\<rparr>"

definition writeRequest :: "('l, 'k, 'f) collaborators \<Rightarrow> 'f MapListenerRequest \<Rightarrow> continuation
    \<Rightarrow> ('l, 'k, 'f) MapEventsManager \<Rightarrow> ('l, 'k, 'f) MapEventsManager" where
  "writeRequest env request k self =
     (let self1 = ensureStream env self
      in case streamPromise self1 of
           Some (PromiseResolved stream) \<Rightarrow> write_on stream request k self1
         | Some (PromisePending stream ws) \<Rightarrow>
             self1\<lparr>streamPromise := Some (PromisePending stream (ws @ [WriteWaiter request k]))\<rparr>
         | None \<Rightarrow> self1)"

text \<open>
  \<^verbatim>\<open>doSubscribe\<close> and \<^verbatim>\<open>doUnsubscribe\<close> up to their \<^verbatim>\<open>await\<close>: build the request from the
  group's target and hand it to \<^verbatim>\<open>writeRequest\<close>. \<open>run_steps\<close> starts the first step of
  a call; the steps after it are kept in the continuation.
\<close>

definition doSubscribe :: "('l, 'k, 'f) collaborators \<Rightarrow> nat \<Rightarrow> bool \<Rightarrow> step list
    \<Rightarrow> ('l, 'k, 'f) MapEventsManager \<Rightarrow> ('l, 'k, 'f) MapEventsManager" where
  "doSubscribe env gid isLite rest self =
     (case deref self gid of
        None \<Rightarrow> self
      | Some g \<Rightarrow>
          (case mapListenerRequest env True (keyOrFilter g) (Some isLite) (reqFactory self) of
             (request, n) \<Rightarrow>
               writeRequest env request \<lparr>cont_group = gid, cont_subscribe = True, cont_rest = rest\<rparr>
                 (self\<lparr>reqFactory := n\<rparr>)))"

definition doUnsubscribe :: "('l, 'k, 'f) collaborators \<Rightarrow> nat \<Rightarrow> step list
    \<Rightarrow> ('l, 'k, 'f) MapEventsManager \<Rightarrow> ('l, 'k, 'f) MapEventsManager" where
  "doUnsubscribe env gid rest self =
     (case deref self gid of
        None \<Rightarrow> self
      | Some g \<Rightarrow>
          (case mapListenerRequest env False (keyOrFilter g) None (reqFactory self) of
             (request, n) \<Rightarrow>
               writeRequest env request \<lparr>cont_group = gid, cont_subscribe = False, cont_rest = rest\<rparr>
                 (self\<lparr>reqFactory := n\<rparr>)))"

definition run_steps :: "('l, 'k, 'f) collaborators \<Rightarrow> nat \<Rightarrow> step list
    \<Rightarrow> ('l, 'k, 'f) MapEventsManager \<Rightarrow> ('l, 'k, 'f) MapEventsManager" where
  "run_steps env gid steps self =
     (case steps of
        [] \<Rightarrow> self
      | DoSubscribe isLite # rest \<Rightarrow> doSubscribe env gid isLite rest self
      | DoUnsubscribe # rest \<Rightarrow> doUnsubscribe env gid rest self)"

subsection \<open>Hooks of the two group classes\<close>

definition keyGroupUnsubscribed :: "'k \<Rightarrow> ('l, 'k, 'f) MapEventsManager \<Rightarrow> ('l, 'k, 'f) MapEventsManager" where
  "keyGroupUnsubscribed k self = self\<lparr>keyMap := Map_delete k (keyMap self)\<rparr>"

definition filterGroupSubscribed :: "nat \<Rightarrow> nat \<Rightarrow> ('l, 'k, 'f) MapEventsManager
    \<Rightarrow> ('l, 'k, 'f) MapEventsManager" where
  "filterGroupSubscribed filterId gid self =
     self\<lparr>filterId2ListenerGroup := Map_set filterId gid (filterId2ListenerGroup self)\<rparr>"

definition filterGroupUnsubscribed :: "nat \<Rightarrow> 'f filter_ref \<Rightarrow> ('l, 'k, 'f) MapEventsManager
    \<Rightarrow> ('l, 'k, 'f) MapEventsManager" where
  "filterGroupUnsubscribed filterId f self =
     self\<lparr>filterId2ListenerGroup := Map_delete filterId (filterId2ListenerGroup self),
          filterMap := Map_delete f (filterMap self)\<rparr>"

definition postSubscribe :: "('l, 'k, 'f) collaborators \<Rightarrow> nat \<Rightarrow> 'f MapListenerRequest
    \<Rightarrow> ('l, 'k, 'f) MapEventsManager \<Rightarrow> ('l, 'k, 'f) MapEventsManager" where
  "postSubscribe env gid request self =
     (case deref self gid of
        None \<Rightarrow> self
      | Some g \<Rightarrow>
          (case keyOrFilter g of
             OfKey k \<Rightarrow> self
           | OfFilter f \<Rightarrow> filterGroupSubscribed (getFilterid request) gid self))"

definition postUnsubscribe :: "('l, 'k, 'f) collaborators \<Rightarrow> nat \<Rightarrow> 'f MapListenerRequest
    \<Rightarrow> ('l, 'k, 'f) MapEventsManager \<Rightarrow> ('l, 'k, 'f) MapEventsManager" where
  "postUnsubscribe env gid request self =
     (case deref self gid of
        None \<Rightarrow> self
      | Some g \<Rightarrow>
          (case keyOrFilter g of
             OfKey k \<Rightarrow> keyGroupUnsubscribed (deserialize (serializer env) (getKey request)) self
           | OfFilter f \<Rightarrow> filterGroupUnsubscribed (getFilterid request) f self))"

subsection \<open>Callbacks and inbound messages\<close>

text \<open>
  The callbacks are called as \<^verbatim>\<open>callback(uid, resp, err)\<close>. Each deletes its entry; with an
  error it rejects its promise, without one it resolves it. Resolving the stream promise
  runs the waiters in the order they were attached; resolving the promise of
  \<^verbatim>\<open>writeRequest\<close> resumes \<^verbatim>\<open>doSubscribe\<close> or \<^verbatim>\<open>doUnsubscribe\<close> at its hook and then
  starts the next step of the call.
\<close>

definition run_waiter :: "nat \<Rightarrow> 'f waiter \<Rightarrow> ('l, 'k, 'f) MapEventsManager \<Rightarrow> ('l, 'k, 'f) MapEventsManager" where
  "run_waiter stream w self =
     (case w of
        WriteWaiter request k \<Rightarrow> write_on stream request k self
      | CloseWaiter \<Rightarrow> close_on stream self)"

definition invoke_callback :: "('l, 'k, 'f) collaborators \<Rightarrow> 'f callback \<Rightarrow> nat \<Rightarrow> string option
    \<Rightarrow> ('l, 'k, 'f) MapEventsManager \<Rightarrow> ('l, 'k, 'f) MapEventsManager" where
  "invoke_callback env cb uid err self =
     (let self1 = self\<lparr>pendingSubscriptions := Map_delete uid (pendingSubscriptions self)\<rparr>
      in case cb of
           InitCallback bidiStream \<Rightarrow>
             (case err of
                Some e \<Rightarrow> self1\<lparr>settled := settled self1 @ [StreamRejected bidiStream e]\<rparr>
              | None \<Rightarrow>
                  (case streamPromise self1 of
                     Some (PromisePending stream ws) \<Rightarrow>
                       (if stream = bidiStream
                        then fold (run_waiter bidiStream) ws
                               (self1\<lparr>streamPromise := Some (PromiseResolved bidiStream)\<rparr>)
                        else self1)
                   | _ \<Rightarrow> self1))
         | RequestCallback k request \<Rightarrow>
             (case err of
                Some e \<Rightarrow> self1\<lparr>settled := settled self1 @ [AckRejected uid e]\<rparr>
              | None \<Rightarrow>
                  (let self2 = self1\<lparr>settled := settled self1 @ [AckResolved uid]\<rparr>;
                       self3 = (if cont_subscribe k then postSubscribe env (cont_group k) request self2
                                else postUnsubscribe env (cont_group k) request self2)
                   in run_steps env (cont_group k) (cont_rest k) self3)))"

text \<open>
  The dispatch of one event: the groups of the event's filter ids in order, then the group
  of its key. A throw of a listener leaves \<^verbatim>\<open>handleResponse\<close>.
\<close>

fun notify_groups :: "('l, 'k, 'f) collaborators \<Rightarrow> 'k MapEvent \<Rightarrow> nat option list
    \<Rightarrow> ('l, 'k, 'f) MapEventsManager \<Rightarrow> ('l, 'k, 'f) MapEventsManager" where
  "notify_groups env mapEvent [] self = self"
| "notify_groups env mapEvent (None # rest) self = notify_groups env mapEvent rest self"
| "notify_groups env mapEvent (Some gid # rest) self =
     (case deref self gid of
        None \<Rightarrow> notify_groups env mapEvent rest self
      | Some g \<Rightarrow>
          (case notifyListeners env g mapEvent of
             (Some err, called) \<Rightarrow>
               self\<lparr>notified := notified self @ called, uncaught := uncaught self @ [err]\<rparr>
           | (None, called) \<Rightarrow>
               notify_groups env mapEvent rest (self\<lparr>notified := notified self @ called\<rparr>)))"

definition handleResponse :: "('l, 'k, 'f) collaborators \<Rightarrow> 'k response
    \<Rightarrow> ('l, 'k, 'f) MapEventsManager \<Rightarrow> ('l, 'k, 'f) MapEventsManager" where
  "handleResponse env resp self =
     (let acknowledged = (\<lambda>uid.
            case uid of
              None \<Rightarrow> self
            | Some u \<Rightarrow>
                (let callback = Map_get (pendingSubscriptions self) u;
                     self1 = self\<lparr>pendingSubscriptions := Map_delete u (pendingSubscriptions self)\<rparr>
                 in case callback of
                      None \<Rightarrow> self1
                    | Some cb \<Rightarrow> invoke_callback env cb u None self1))
      in case resp of
           Subscribed uid \<Rightarrow> acknowledged uid
         | Unsubscribed uid \<Rightarrow> acknowledged uid
         | Destroyed cache \<Rightarrow>
             (if cache = mapName env
              then self\<lparr>emitted := emitted self @ [EmitDestroyed (mapName env)]\<rparr> else self)
         | Truncated cache \<Rightarrow>
             (if cache = mapName env
              then self\<lparr>emitted := emitted self @ [EmitTruncated (mapName env)]\<rparr> else self)
         | Event mapEvent \<Rightarrow>
             notify_groups env mapEvent
               (map (Map_get (filterId2ListenerGroup self)) (getFilteridsList mapEvent)
                @ [Map_get (keyMap self) (getEventKey mapEvent)])
               self
         | RESPONSE_TYPE_NOT_SET \<Rightarrow> self)"

subsection \<open>Registration\<close>

definition addListener :: "('l, 'k, 'f) collaborators \<Rightarrow> nat \<Rightarrow> 'l \<Rightarrow> bool
    \<Rightarrow> ('l, 'k, 'f) MapEventsManager \<Rightarrow> ('l, 'k, 'f) MapEventsManager" where
  "addListener env gid listener isLite self =
     (case deref self gid of
        None \<Rightarrow> self
      | Some g \<Rightarrow>
          (case group_addListener listener isLite g of
             (g', steps) \<Rightarrow> run_steps env gid steps (self\<lparr>store := (store self)[gid := g']\<rparr>)))"

definition removeListener :: "('l, 'k, 'f) collaborators \<Rightarrow> nat \<Rightarrow> 'l
    \<Rightarrow> ('l, 'k, 'f) MapEventsManager \<Rightarrow> ('l, 'k, 'f) MapEventsManager" where
  "removeListener env gid listener self =
     (case deref self gid of
        None \<Rightarrow> self
      | Some g \<Rightarrow>
          (case group_removeListener listener g of
             (g', steps) \<Rightarrow> run_steps env gid steps (self\<lparr>store := (store self)[gid := g']\<rparr>)))"

text \<open>A new group is a new object: it gets the next free address of the store.\<close>

definition new_group :: "('k, 'f) target \<Rightarrow> ('l, 'k, 'f) MapEventsManager
    \<Rightarrow> nat \<times> ('l, 'k, 'f) MapEventsManager" where
  "new_group t self =
     (let gid = length (store self)
      in (gid, self\<lparr>store := store self @ [ListenerGroup_new t]\<rparr>))"

definition registerKeyListener :: "('l, 'k, 'f) collaborators \<Rightarrow> 'l \<Rightarrow> 'k \<Rightarrow> bool
    \<Rightarrow> ('l, 'k, 'f) MapEventsManager \<Rightarrow> ('l, 'k, 'f) MapEventsManager" where
  "registerKeyListener env listener k isLite self =
     (case Map_get (keyMap self) k of
        Some gid \<Rightarrow> addListener env gid listener isLite self
      | None \<Rightarrow>
          (case new_group (OfKey k) self of
             (gid, self1) \<Rightarrow>
               addListener env gid listener isLite (self1\<lparr>keyMap := Map_set k gid (keyMap self1)\<rparr>)))"

definition removeKeyListener :: "('l, 'k, 'f) collaborators \<Rightarrow> 'l \<Rightarrow> 'k
    \<Rightarrow> ('l, 'k, 'f) MapEventsManager \<Rightarrow> ('l, 'k, 'f) MapEventsManager" where
  "removeKeyListener env listener k self =
     (case Map_get (keyMap self) k of
        Some gid \<Rightarrow> removeListener env gid listener self
      | None \<Rightarrow> self)"

definition normal_filter :: "'f option \<Rightarrow> 'f filter_ref" where
  "normal_filter mapFilter = (case mapFilter of None \<Rightarrow> DEFAULT_FILTER | Some x \<Rightarrow> UserFilter x)"

definition registerFilterListener :: "('l, 'k, 'f) collaborators \<Rightarrow> 'l \<Rightarrow> 'f option \<Rightarrow> bool
    \<Rightarrow> ('l, 'k, 'f) MapEventsManager \<Rightarrow> ('l, 'k, 'f) MapEventsManager" where
  "registerFilterListener env listener mapFilter isLite self =
     (let f = normal_filter mapFilter
      in case Map_get (filterMap self) f of
           Some gid \<Rightarrow> addListener env gid listener isLite self
         | None \<Rightarrow>
             (case new_group (OfFilter f) self of
                (gid, self1) \<Rightarrow>
                  addListener env gid listener isLite
                    (self1\<lparr>filterMap := Map_set f gid (filterMap self1)\<rparr>)))"

definition removeFilterListener :: "('l, 'k, 'f) collaborators \<Rightarrow> 'l \<Rightarrow> 'f option
    \<Rightarrow> ('l, 'k, 'f) MapEventsManager \<Rightarrow> ('l, 'k, 'f) MapEventsManager" where
  "removeFilterListener env listener mapFilter self =
     (let f = normal_filter mapFilter
      in case Map_get (filterMap self) f of
           None \<Rightarrow> self
         | Some gid \<Rightarrow> removeListener env gid listener self)"

subsection \<open>Closing, and the other stream events\<close>

definition closeEventStream :: "('l, 'k, 'f) collaborators \<Rightarrow> ('l, 'k, 'f) MapEventsManager
    \<Rightarrow> ('l, 'k, 'f) MapEventsManager" where
  "closeEventStream env self =
     (if \<not> markedForClose self \<and> streamPromise self \<noteq> None then
        (let self1 = self\<lparr>markedForClose := True\<rparr>
         in case streamPromise self1 of
              Some (PromiseResolved bidiStream) \<Rightarrow> close_on bidiStream self1
            | Some (PromisePending bidiStream ws) \<Rightarrow>
                self1\<lparr>streamPromise := Some (PromisePending bidiStream (ws @ [CloseWaiter]))\<rparr>
            | None \<Rightarrow> self1)
      else self)"

definition onError :: "('l, 'k, 'f) collaborators \<Rightarrow> string \<Rightarrow> ('l, 'k, 'f) MapEventsManager
    \<Rightarrow> ('l, 'k, 'f) MapEventsManager" where
  "onError env err self =
     (if \<not> markedForClose self
      then self\<lparr>emitted := emitted self @ [EmitError (mapName env @ '': Received onError'') (Some err)]\<rparr>
      else self)"

definition onEnd :: "('l, 'k, 'f) collaborators \<Rightarrow> ('l, 'k, 'f) MapEventsManager
    \<Rightarrow> ('l, 'k, 'f) MapEventsManager" where
  "onEnd env self =
     (if \<not> markedForClose self
      then self\<lparr>emitted := emitted self @ [EmitError (mapName env @ '': Received onEnd'') None]\<rparr>
      else self)"

definition onCancel :: "('l, 'k, 'f) collaborators \<Rightarrow> ('l, 'k, 'f) MapEventsManager
    \<Rightarrow> ('l, 'k, 'f) MapEventsManager" where
  "onCancel env self =
     (if \<not> markedForClose self
      then self\<lparr>emitted := emitted self @ [EmitError ''** Received onCancel'' None]\<rparr>
      else self)"

text \<open>
  An 'error' event of stream \<open>bidiStream\<close>, \<open>err\<close> being \<^verbatim>\<open>err.toString()\<close>: the handler
  installed by \<^verbatim>\<open>ensureStream\<close> runs first, then the one installed on that stream by
  \<^verbatim>\<open>closeEventStream\<close>, whose test is \<^verbatim>\<open>err.toString().indexOf('CANCELLED')\<close>.
\<close>

definition streamError :: "('l, 'k, 'f) collaborators \<Rightarrow> nat \<Rightarrow> string \<Rightarrow> ('l, 'k, 'f) MapEventsManager
    \<Rightarrow> ('l, 'k, 'f) MapEventsManager" where
  "streamError env bidiStream err self =
     (if bidiStream < streamsOpened self then
        (let self1 = onError env err self
         in if closeHandlerOn self1 = Some bidiStream \<and> truthy_number (indexOf err ''CANCELLED'')
            then self1\<lparr>streamPromise := None, closeResolved := True\<rparr>
            else self1)
      else self)"

subsection \<open>Runs\<close>

text \<open>
  What can happen to a manager, one after the other: a call of its interface, a message or an
  event of a stream.
\<close>

datatype ('l, 'k, 'f) input =
    RegisterKeyListener 'l 'k bool
  | RemoveKeyListener 'l 'k
  | RegisterFilterListener 'l "'f option" bool
  | RemoveFilterListener 'l "'f option"
  | CloseEventStream
  | OnData "'k response"
  | OnStreamError nat string
  | OnStreamEnd
  | OnStreamCancelled

fun react :: "('l, 'k, 'f) collaborators \<Rightarrow> ('l, 'k, 'f) input \<Rightarrow> ('l, 'k, 'f) MapEventsManager
    \<Rightarrow> ('l, 'k, 'f) MapEventsManager" where
  "react env (RegisterKeyListener l k isLite) self = registerKeyListener env l k isLite self"
| "react env (RemoveKeyListener l k) self = removeKeyListener env l k self"
| "react env (RegisterFilterListener l f isLite) self = registerFilterListener env l f isLite self"
| "react env (RemoveFilterListener l f) self = removeFilterListener env l f self"
| "react env CloseEventStream self = closeEventStream env self"
| "react env (OnData resp) self = handleResponse env resp self"
| "react env (OnStreamError bidiStream err) self = streamError env bidiStream err self"
| "react env OnStreamEnd self = onEnd env self"
| "react env OnStreamCancelled self = onCancel env self"

definition run :: "('l, 'k, 'f) collaborators \<Rightarrow> ('l, 'k, 'f) input list \<Rightarrow> ('l, 'k, 'f) MapEventsManager
    \<Rightarrow> ('l, 'k, 'f) MapEventsManager" where
  "run env inputs self = fold (react env) inputs self"

text \<open>Whether an action on the gRPC client writes a SUBSCRIBE request.\<close>

definition is_subscribe_write :: "'f wire_action \<Rightarrow> bool" where
  "is_subscribe_write a = (case a of Write stream request \<Rightarrow> getType request = SUBSCRIBE | _ \<Rightarrow> False)"

text \<open>The group a key or a filter leads to, through the map and the store.\<close>

definition keyGroup :: "('l, 'k, 'f) MapEventsManager \<Rightarrow> 'k \<Rightarrow> ('l, 'k, 'f) ListenerGroup option" where
  "keyGroup self k = (case Map_get (keyMap self) k of None \<Rightarrow> None | Some gid \<Rightarrow> deref self gid)"

definition filterGroup :: "('l, 'k, 'f) MapEventsManager \<Rightarrow> 'f filter_ref \<Rightarrow> ('l, 'k, 'f) ListenerGroup option" where
  "filterGroup self f = (case Map_get (filterMap self) f of None \<Rightarrow> None | Some gid \<Rightarrow> deref self gid)"

text \<open>
  Collaborators for the runs evaluated below: string keys serialized as themselves, listeners
  that return normally unless they are named "boom", filter ids taken from the request number.
\<close>

definition plain_env :: "(string, string, string) collaborators" where
  "plain_env =
     \<lparr>mapName = ''m'',
      serializer = \<lparr>serialize = (\<lambda>v. v), deserialize = (\<lambda>bs. bs)\<rparr>,
      filterIdOf = (\<lambda>n f. n),
      listenerSink = (\<lambda>l i e. if l = ''boom'' then Some ''thrown by boom'' else None)\<rparr>"

text \<open>
  A manager whose stream is initialised and whose key "k" has one lite listener, "h1", its
  subscription acknowledged.
\<close>

definition one_lite_listener :: "(string, string, string) MapEventsManager" where
  "one_lite_listener =
     run plain_env
       [OnData (Subscribed (Some 0)), RegisterKeyListener ''h1'' ''k'' True,
        OnData (Subscribed (Some 1))]
       (MapEventsManager_new plain_env)"

text \<open>
  The specification's side, in its own words: the pages fetched \<^emph>\<open>until an empty cookie\<close>
  (the page carrying the empty cookie included), where the cookie of a page is the one
  extracted from its first message; and the items yielded, \<open>handleEntry\<close> of the
  \<^emph>\<open>concatenation of non-first messages\<close> of those pages.
\<close>

definition page_cookie :: "('r, 't) IStreamedDataHelper \<Rightarrow> 'r list \<Rightarrow> Cookie" where
  "page_cookie h p = extractCookie h (hd p)"

fun pages_until_empty_cookie :: "('r, 't) IStreamedDataHelper \<Rightarrow> 'r list list \<Rightarrow> 'r list list" where
  "pages_until_empty_cookie h [] = []"
| "pages_until_empty_cookie h (p # ps) =
     (if cookie_is_empty (page_cookie h p) then [p] else p # pages_until_empty_cookie h ps)"

definition yielded_items :: "('r, 't) IStreamedDataHelper \<Rightarrow> 'r list list \<Rightarrow> 't list" where
  "yielded_items h pages = map (handleEntry h) (concat (map tl (pages_until_empty_cookie h pages)))"

definition has_empty_cookie :: "('r, 't) IStreamedDataHelper \<Rightarrow> 'r list list \<Rightarrow> bool" where
  "has_empty_cookie h pages = list_ex (\<lambda>p. cookie_is_empty (page_cookie h p)) pages"

text \<open>
  The cookies of the page requests the specification's algorithm sends, starting from
  cookie \<open>c\<close>: one request per page fetched, each carrying the cookie of the page before.
\<close>

fun cookies_sent :: "('r, 't) IStreamedDataHelper \<Rightarrow> Cookie \<Rightarrow> 'r list list \<Rightarrow> Cookie list" where
  "cookies_sent h c [] = [c]"
| "cookies_sent h c (p # ps) =
     c # (if cookie_is_empty (page_cookie h p) then [] else cookies_sent h (page_cookie h p) ps)"

definition good :: "'r server \<Rightarrow> bool" where
  "good srv = list_all (\<lambda>c. msgs c \<noteq> [] \<and> ending c = End) (calls srv)"

definition rem_items :: "('r, 't) IStreamedDataHelper \<Rightarrow> 'r PageAdvancer \<times> 'r server \<Rightarrow> 'r list" where
  "rem_items h st = (case st of (self, srv) \<Rightarrow>
     data self @ (if exhausted self then [] else concat (map tl (pages_until_empty_cookie h (map msgs (calls srv))))))"

definition fin :: "('r, 't) IStreamedDataHelper \<Rightarrow> 'r PageAdvancer \<times> 'r server \<Rightarrow> bool" where
  "fin h st = (case st of (self, srv) \<Rightarrow> exhausted self \<or> has_empty_cookie h (map msgs (calls srv)))"

definition final_calls :: "('r, 't) IStreamedDataHelper \<Rightarrow> 'r PageAdvancer \<times> 'r server \<Rightarrow> 'r call list" where
  "final_calls h st = (case st of (self, srv) \<Rightarrow>
     if exhausted self then calls srv
     else drop (length (pages_until_empty_cookie h (map msgs (calls srv)))) (calls srv))"

definition final_requests :: "('r, 't) IStreamedDataHelper \<Rightarrow> 'r PageAdvancer \<times> 'r server \<Rightarrow> Cookie list" where
  "final_requests h st = (case st of (self, srv) \<Rightarrow>
     requests srv @ (if exhausted self then [] else cookies_sent h (cookie self) (map msgs (calls srv))))"

definition head_outcome :: "('r, 't) IStreamedDataHelper \<Rightarrow> 'r PageAdvancer \<times> 'r server \<Rightarrow> 't outcome" where
  "head_outcome h st = (case rem_items h st of x # xs \<Rightarrow> Value (handleEntry h x)
      | [] \<Rightarrow> if fin h st then Done else NoReply)"

definition step_ok :: "('r, 't) IStreamedDataHelper \<Rightarrow> 'r PageAdvancer \<times> 'r server \<Rightarrow> bool" where
  "step_ok h st \<longleftrightarrow>
     (\<exists>st'. next h st = (head_outcome h st, st') \<and> good (snd st') \<and>
      rem_items h st' = tl (rem_items h st) \<and> fin h st' = fin h st \<and>
      final_calls h st' = final_calls h st \<and>
      (head_outcome h st \<noteq> NoReply \<longrightarrow> final_requests h st' = final_requests h st))"

text \<open>A concrete key-set helper and server, for the runs evaluated below.\<close>

definition plain_serializer :: "string Serializer" where
  "plain_serializer = \<lparr>serialize = (\<lambda>v. v), deserialize = (\<lambda>bs. bs)\<rparr>"

definition two_pages :: "BytesValue list list" where
  "two_pages = [[''a'', ''e1'', ''e2''], ['''', ''e3'']]"

lemma fold_onData_rest:
  "fold (onData h) ms (False, self, d) = (False, self, d @ ms)"
  by (induction ms arbitrary: d) auto

lemma loadNextPage_good:
  "calls srv = \<lparr>msgs = m # ms, ending = End\<rparr> # cs \<Longrightarrow>
   loadNextPage h (self, srv) =
     (Resolved ms,
      self\<lparr>cookie := extractCookie h m, exhausted := cookie_is_empty (extractCookie h m)\<rparr>,
      srv\<lparr>requests := requests srv @ [cookie self], calls := cs\<rparr>)"
  by (simp add: loadNextPage_def Let_def fold_onData_rest)

lemma next_value:
  "data self = x # xs \<Longrightarrow> next h (self, srv) = (Value (handleEntry h x), self\<lparr>data := xs\<rparr>, srv)"
  by simp

lemma next_done:
  "data self = [] \<Longrightarrow> exhausted self \<Longrightarrow> next h (self, srv) = (Done, self, srv)"
  by simp

lemma next_noreply:
  "data self = [] \<Longrightarrow> \<not> exhausted self \<Longrightarrow> calls srv = [] \<Longrightarrow>
   next h (self, srv) = (NoReply, self\<lparr>current := - 1\<rparr>, srv\<lparr>requests := requests srv @ [cookie self]\<rparr>)"
  by (simp add: loadNextPage_def)

lemma next_load:
  "data self = [] \<Longrightarrow> \<not> exhausted self \<Longrightarrow> calls srv = \<lparr>msgs = m # ms, ending = End\<rparr> # cs \<Longrightarrow>
   next h (self, srv) =
     next h (self\<lparr>current := - 1, cookie := extractCookie h m,
                 exhausted := cookie_is_empty (extractCookie h m), data := ms\<rparr>,
             srv\<lparr>requests := requests srv @ [cookie self], calls := cs\<rparr>)"
  by (subst next.simps) (simp add: loadNextPage_good del: next.simps)

lemma step_ok_cong:
  "next h st = next h st1 \<Longrightarrow> rem_items h st = rem_items h st1 \<Longrightarrow> fin h st = fin h st1 \<Longrightarrow>
   final_calls h st = final_calls h st1 \<Longrightarrow> final_requests h st = final_requests h st1 \<Longrightarrow>
   step_ok h st1 \<Longrightarrow> step_ok h st"
  by (simp only: step_ok_def head_outcome_def)

lemma step_ok_nonempty:
  "good srv \<Longrightarrow> data self \<noteq> [] \<Longrightarrow> step_ok h (self, srv)"
  by (cases "data self")
     (simp_all add: step_ok_def head_outcome_def rem_items_def fin_def final_calls_def final_requests_def)

lemma step_ok_exhausted:
  "good srv \<Longrightarrow> data self = [] \<Longrightarrow> exhausted self \<Longrightarrow> step_ok h (self, srv)"
  by (simp add: step_ok_def head_outcome_def rem_items_def fin_def final_calls_def final_requests_def)

lemma step_ok_empty:
  "calls srv = cs \<Longrightarrow> good srv \<Longrightarrow> data self = [] \<Longrightarrow> \<not> exhausted self \<Longrightarrow> step_ok h (self, srv)"
proof (induction cs arbitrary: self srv)
  case Nil
  then show ?case
    by (simp add: step_ok_def next_noreply head_outcome_def rem_items_def fin_def
        has_empty_cookie_def good_def final_calls_def del: next.simps)
next
  case (Cons c cs)
  obtain m ms where c: "c = \<lparr>msgs = m # ms, ending = End\<rparr>"
    using Cons.prems(1,2) by (cases c; cases "msgs c") (auto simp: good_def)
  let ?self1 = "self\<lparr>current := - 1, cookie := extractCookie h m,
                 exhausted := cookie_is_empty (extractCookie h m), data := ms\<rparr>"
  let ?srv1 = "srv\<lparr>requests := requests srv @ [cookie self], calls := cs\<rparr>"
  have step: "next h (self, srv) = next h (?self1, ?srv1)"
    using Cons.prems c by (intro next_load) auto
  have good1: "good ?srv1" using Cons.prems by (simp add: good_def)
  have rem: "rem_items h (self, srv) = rem_items h (?self1, ?srv1)"
    using Cons.prems c by (simp add: rem_items_def page_cookie_def)
  have fin: "fin h (self, srv) = fin h (?self1, ?srv1)"
    using Cons.prems c by (simp add: fin_def has_empty_cookie_def page_cookie_def)
  have fc: "final_calls h (self, srv) = final_calls h (?self1, ?srv1)"
    using Cons.prems c by (simp add: final_calls_def page_cookie_def)
  have fr: "final_requests h (self, srv) = final_requests h (?self1, ?srv1)"
    using Cons.prems c by (simp add: final_requests_def page_cookie_def)
  have "step_ok h (?self1, ?srv1)"
  proof (cases "ms = []")
    case False
    then show ?thesis using good1 by (intro step_ok_nonempty) auto
  next
    case True
    show ?thesis
    proof (cases "cookie_is_empty (extractCookie h m)")
      case True
      then show ?thesis using good1 \<open>ms = []\<close> by (intro step_ok_exhausted) auto
    next
      case False
      then show ?thesis using good1 \<open>ms = []\<close> by (intro Cons.IH) auto
    qed
  qed
  then show ?case using step rem fin fc fr by (rule step_ok_cong [rotated 5])
qed

lemma step_ok_all: "good srv \<Longrightarrow> step_ok h (self, srv)"
  using step_ok_nonempty step_ok_exhausted step_ok_empty by (cases "data self = []"; cases "exhausted self") blast+


lemma next_Done_post:
  "next h st = (Done, st') \<Longrightarrow> data (fst st') = [] \<and> exhausted (fst st')"
proof (induction h st arbitrary: st' rule: next.induct)
  case (1 h self srv)
  show ?case
  proof (cases "data self = []")
    case False
    with "1.prems" show ?thesis by simp
  next
    case True
    show ?thesis
    proof (cases "exhausted self")
      case True
      with \<open>data self = []\<close> "1.prems" show ?thesis by auto
    next
      case False
      obtain p self1 srv1 where l: "loadNextPage h (self\<lparr>current := - 1\<rparr>, srv) = (p, self1, srv1)"
        by (cases "loadNextPage h (self\<lparr>current := - 1\<rparr>, srv)") auto
      show ?thesis
      proof (cases p)
        case (Resolved d)
        with l False \<open>data self = []\<close> "1.prems" have "next h (self1\<lparr>data := d\<rparr>, srv1) = (Done, st')"
          by simp
        with "1.IH" [OF _ _ l [symmetric, unfolded Resolved] refl refl] False \<open>data self = []\<close>
        show ?thesis by simp
      next
        case (Rejected e)
        with l False \<open>data self = []\<close> "1.prems" show ?thesis by simp
      next
        case Unsettled
        with l False \<open>data self = []\<close> "1.prems" show ?thesis by simp
      qed
    qed
  qed
qed

lemma nexts_after_done:
  "data (fst st) = [] \<Longrightarrow> exhausted (fst st) \<Longrightarrow> nexts h n st = (replicate n Done, st)"
  by (induction n) (cases st; simp)+

lemma next_exhausted:
  "exhausted (fst st) \<Longrightarrow> exhausted (fst (snd (next h st))) \<and> snd (snd (next h st)) = snd st"
  by (cases st) simp


lemma nexts_outcomes:
  "good (snd st) \<Longrightarrow>
   fst (nexts h n st) =
     take n (map (Value \<circ> handleEntry h) (rem_items h st)) @
     (if fin h st then replicate (n - length (rem_items h st)) Done
      else if length (rem_items h st) < n then [NoReply] else [])"
proof (induction n arbitrary: st)
  case 0
  then show ?case by simp
next
  case (Suc n)
  obtain self srv where st: "st = (self, srv)" by (cases st)
  from Suc.prems have "step_ok h st" by (simp add: st step_ok_all)
  then obtain st' where nx: "next h st = (head_outcome h st, st')" and g: "good (snd st')"
    and r: "rem_items h st' = tl (rem_items h st)" and f: "fin h st' = fin h st"
    by (auto simp: step_ok_def)
  show ?case
  proof (cases "rem_items h st")
    case Nil
    show ?thesis
    proof (cases "fin h st")
      case True
      with Nil have ho: "head_outcome h st = Done" by (simp add: head_outcome_def)
      from Suc.IH [OF g] r f Nil True show ?thesis
        by (auto simp: nx ho split: prod.splits)
    next
      case False
      with Nil have ho: "head_outcome h st = NoReply" by (simp add: head_outcome_def)
      from Nil False show ?thesis by (simp add: nx ho)
    qed
  next
    case (Cons x xs)
    then have ho: "head_outcome h st = Value (handleEntry h x)" by (simp add: head_outcome_def)
    from Suc.IH [OF g] r f Cons show ?thesis
      by (auto simp: nx ho split: prod.splits)
  qed
qed

lemma nexts_final_state:
  "good (snd st) \<Longrightarrow> fin h st \<Longrightarrow> length (rem_items h st) < n \<Longrightarrow>
   data (fst (snd (nexts h n st))) = [] \<and> exhausted (fst (snd (nexts h n st))) \<and>
   calls (snd (snd (nexts h n st))) = final_calls h st \<and>
   requests (snd (snd (nexts h n st))) = final_requests h st"
proof (induction n arbitrary: st)
  case 0
  then show ?case by simp
next
  case (Suc n)
  from Suc.prems have "step_ok h st" by (cases st) (simp add: step_ok_all)
  then obtain st' where nx: "next h st = (head_outcome h st, st')" and g: "good (snd st')"
    and r: "rem_items h st' = tl (rem_items h st)" and f: "fin h st' = fin h st"
    and fc: "final_calls h st' = final_calls h st"
    and fr: "head_outcome h st \<noteq> NoReply \<longrightarrow> final_requests h st' = final_requests h st"
    by (auto simp: step_ok_def)
  show ?case
  proof (cases "rem_items h st")
    case Nil
    with Suc.prems have ho: "head_outcome h st = Done" by (simp add: head_outcome_def)
    from nx ho have post: "data (fst st') = []" "exhausted (fst st')"
      using next_Done_post [of h st st'] by simp_all
    then have n: "nexts h n st' = (replicate n Done, st')" by (rule nexts_after_done)
    from post have "final_calls h st' = calls (snd st')" "final_requests h st' = requests (snd st')"
      by (cases st'; simp add: final_calls_def final_requests_def)+
    with fc fr ho post show ?thesis by (simp add: nx n)
  next
    case (Cons x xs)
    then have ho: "head_outcome h st = Value (handleEntry h x)" by (simp add: head_outcome_def)
    from Cons Suc.prems r have "length (rem_items h st') < n" by simp
    from Suc.IH [OF g _ this] Suc.prems f fc fr ho show ?thesis
      by (auto simp: nx split: prod.splits)
  qed
qed

lemma good_server_of: "list_all (\<lambda>p. p \<noteq> []) pages \<Longrightarrow> good (server_of pages)"
  by (simp add: good_def server_of_def list_all_iff)

lemma msgs_server_of: "map msgs (calls (server_of pages)) = pages"
  by (simp add: server_of_def comp_def)

lemma rem_items_new:
  "map (Value \<circ> handleEntry h) (rem_items h (PageAdvancer_new h, server_of pages)) = map Value (yielded_items h pages)"
  by (simp add: rem_items_def PageAdvancer_new_def msgs_server_of yielded_items_def)

lemma length_rem_items_new:
  "length (rem_items h (PageAdvancer_new h, server_of pages)) = length (yielded_items h pages)"
  by (simp add: rem_items_def PageAdvancer_new_def msgs_server_of yielded_items_def)

lemma fin_new: "fin h (PageAdvancer_new h, server_of pages) = has_empty_cookie h pages"
  by (simp add: fin_def PageAdvancer_new_def msgs_server_of)

lemma length_cookies_sent:
  "has_empty_cookie h pages \<Longrightarrow>
   length (cookies_sent h c pages) = length (pages_until_empty_cookie h pages)"
  by (induction pages arbitrary: c) (auto simp: has_empty_cookie_def)

lemma one_empty_cookie_page:
  "has_empty_cookie h pages \<Longrightarrow>
   length (filter (\<lambda>p. cookie_is_empty (page_cookie h p)) (pages_until_empty_cookie h pages)) = 1 \<and>
   cookie_is_empty (page_cookie h (last (pages_until_empty_cookie h pages)))"
  by (induction pages) (auto simp: has_empty_cookie_def)

lemma pages_until_empty_cookie_nonempty:
  "pages \<noteq> [] \<Longrightarrow> pages_until_empty_cookie h pages \<noteq> []"
  by (cases pages) auto

lemma loadNextPage_requests:
  "requests (snd (snd (loadNextPage h (self, srv)))) = requests srv @ [cookie self]"
  by (simp add: loadNextPage_def Let_def split: list.splits prod.splits ending.splits)

lemma next_requests_grow:
  "\<exists>more. requests (snd (snd (next h st))) = requests (snd st) @ more"
proof (induction h st rule: next.induct)
  case (1 h self srv)
  show ?case
  proof (cases "data self = [] \<and> \<not> exhausted self")
    case False
    then show ?thesis by auto
  next
    case True
    obtain p self1 srv1 where l: "loadNextPage h (self\<lparr>current := - 1\<rparr>, srv) = (p, self1, srv1)"
      by (cases "loadNextPage h (self\<lparr>current := - 1\<rparr>, srv)") auto
    from loadNextPage_requests [of h "self\<lparr>current := - 1\<rparr>" srv] l
    have r1: "requests srv1 = requests srv @ [cookie self]" by simp
    show ?thesis
    proof (cases p)
      case (Resolved d)
      from "1.IH" [OF _ _ l [symmetric, unfolded Resolved] refl refl] True
      obtain more where "requests (snd (snd (next h (self1\<lparr>data := d\<rparr>, srv1)))) = requests srv1 @ more"
        by auto
      with True l Resolved r1 show ?thesis by simp
    next
      case (Rejected e)
      with True l r1 show ?thesis by simp
    next
      case Unsettled
      with True l r1 show ?thesis by simp
    qed
  qed
qed

lemma next_cookie_only_page:
  assumes "data self = []" "\<not> exhausted self" "calls srv = \<lparr>msgs = [m], ending = End\<rparr> # cs"
  shows "next h (self, srv) =
     (let self1 = self\<lparr>current := - 1, cookie := extractCookie h m,
                       exhausted := cookie_is_empty (extractCookie h m), data := []\<rparr>;
          srv1 = srv\<lparr>requests := requests srv @ [cookie self], calls := cs\<rparr>
      in if cookie_is_empty (extractCookie h m) then (Done, self1, srv1) else next h (self1, srv1))"
  using next_load [OF assms, of h] by (simp add: Let_def del: next.simps add: next_done)

lemma next_issues_request:
  assumes "data self = []" "\<not> exhausted self"
  shows "\<exists>more. requests (snd (snd (next h (self, srv)))) = requests srv @ cookie self # more"
proof -
  obtain p self1 srv1 where l: "loadNextPage h (self\<lparr>current := - 1\<rparr>, srv) = (p, self1, srv1)"
    by (cases "loadNextPage h (self\<lparr>current := - 1\<rparr>, srv)") auto
  from loadNextPage_requests [of h "self\<lparr>current := - 1\<rparr>" srv] l
  have r1: "requests srv1 = requests srv @ [cookie self]" by simp
  show ?thesis
  proof (cases p)
    case (Resolved d)
    from next_requests_grow [of h "(self1\<lparr>data := d\<rparr>, srv1)"]
    obtain more where "requests (snd (snd (next h (self1\<lparr>data := d\<rparr>, srv1)))) = requests srv1 @ more"
      by auto
    with assms l Resolved r1 show ?thesis by simp
  next
    case (Rejected e)
    with assms l r1 show ?thesis by simp
  next
    case Unsettled
    with assms l r1 show ?thesis by simp
  qed
qed

text \<open>
  The concrete run used below is the specification's scenario 4: a key set whose server
  returns page 1 = [cookie "a", e1, e2] and page 2 = [cookie "", e3].
\<close>

lemma two_pages_eval:
  "list_all (\<lambda>p. p \<noteq> []) two_pages"
  "has_empty_cookie (KeySetHelper plain_serializer) two_pages"
  "yielded_items (KeySetHelper plain_serializer) two_pages = [''e1'', ''e2'', ''e3'']"
  "pages_until_empty_cookie (KeySetHelper plain_serializer) two_pages = two_pages"
  "cookies_sent (KeySetHelper plain_serializer) None two_pages = [None, Some ''a'']"
  by (simp_all add: two_pages_def has_empty_cookie_def yielded_items_def KeySetHelper_def
      plain_serializer_def page_cookie_def cookie_is_empty_def)

declare next.simps [simp del] nexts.simps [simp del]

text \<open>
  Claim C2. For a server whose pages each begin with a cookie message, the outcomes of
  \<open>n\<close> successive \<^verbatim>\<open>next()\<close> calls on a new advancer are, in order, \<open>handleEntry\<close> of the
  non-first messages of the pages fetched up to and including the first page with an empty
  cookie, followed by \<^verbatim>\<open>done\<close> for every later call. The first message of a page is never
  among the items: \<open>yielded_items\<close> takes the tail of every page. (Where no page carries an
  empty cookie the items are those of all pages, and the call after the last item is left
  without a reply.)
\<close>

theorem C2_yielded_items:
  assumes "list_all (\<lambda>p. p \<noteq> []) pages"
  shows "fst (nexts h n (PageAdvancer_new h, server_of pages)) =
           take n (map Value (yielded_items h pages) @
                   (if has_empty_cookie h pages then replicate n Done else [NoReply]))"
  using nexts_outcomes [of "(PageAdvancer_new h, server_of pages)" h n] good_server_of [OF assms]
  by (simp add: rem_items_new length_rem_items_new fin_new min_def)

theorem C2_yielded_items_witness:
  "list_all (\<lambda>p. p \<noteq> []) two_pages \<and>
   fst (nexts (KeySetHelper plain_serializer) 5
         (PageAdvancer_new (KeySetHelper plain_serializer), server_of two_pages)) =
     [Value ''e1'', Value ''e2'', Value ''e3'', Done, Done]"
  using C2_yielded_items [of two_pages "KeySetHelper plain_serializer" 5]
  by (simp add: two_pages_eval eval_nat_numeral)

text \<open>
  Claim C4. First conjunct: when some page carries an empty cookie, the call after the last
  item signals \<^verbatim>\<open>done\<close>; by then the advancer has fetched exactly the pages up to the first
  one with an empty cookie (one request each, the rest of the server's pages untouched),
  and exactly one of the pages fetched, the last, has an empty cookie. Second conjunct: a
  page that holds only the cookie message sets the cookie; with an empty cookie the call
  ends the iteration, otherwise the same call goes on to request the next page with the
  new cookie.
\<close>

theorem C4_terminates_at_empty_cookie:
  "(list_all (\<lambda>p. p \<noteq> []) pages \<and> has_empty_cookie h pages \<longrightarrow>
      (case nexts h (Suc (length (yielded_items h pages))) (PageAdvancer_new h, server_of pages) of
         (rs, self', srv') \<Rightarrow>
           rs = map Value (yielded_items h pages) @ [Done] \<and> exhausted self' \<and> data self' = [] \<and>
           calls srv' = drop (length (pages_until_empty_cookie h pages)) (calls (server_of pages)) \<and>
           requests srv' = cookies_sent h None pages \<and>
           length (requests srv') = length (pages_until_empty_cookie h pages)) \<and>
      length (filter (\<lambda>p. cookie_is_empty (page_cookie h p)) (pages_until_empty_cookie h pages)) = 1 \<and>
      cookie_is_empty (page_cookie h (last (pages_until_empty_cookie h pages)))) \<and>
   (data self = [] \<and> \<not> exhausted self \<and> calls srv = \<lparr>msgs = [m], ending = End\<rparr> # cs \<longrightarrow>
      next h (self, srv) =
        (let self1 = self\<lparr>current := - 1, cookie := extractCookie h m,
                          exhausted := cookie_is_empty (extractCookie h m), data := []\<rparr>;
             srv1 = srv\<lparr>requests := requests srv @ [cookie self], calls := cs\<rparr>
         in if cookie_is_empty (extractCookie h m) then (Done, self1, srv1) else next h (self1, srv1)) \<and>
      (\<not> cookie_is_empty (extractCookie h m) \<longrightarrow>
         (\<exists>more. requests (snd (snd (next h (self, srv)))) =
                    requests srv @ cookie self # extractCookie h m # more)))"
proof (intro conjI impI)
  assume a: "list_all (\<lambda>p. p \<noteq> []) pages \<and> has_empty_cookie h pages"
  let ?st = "(PageAdvancer_new h, server_of pages)"
  let ?n = "Suc (length (yielded_items h pages))"
  have g: "good (snd ?st)" using a by (simp add: good_server_of)
  have f: "fin h ?st" using a by (simp add: fin_new)
  have l: "length (rem_items h ?st) < ?n" by (simp add: length_rem_items_new)
  have out: "fst (nexts h ?n ?st) = map Value (yielded_items h pages) @ [Done]"
    using nexts_outcomes [OF g, of h ?n] f by (simp add: rem_items_new length_rem_items_new)
  have fc: "final_calls h ?st = drop (length (pages_until_empty_cookie h pages)) (calls (server_of pages))"
    by (simp add: final_calls_def PageAdvancer_new_def msgs_server_of)
  have fr: "final_requests h ?st = cookies_sent h None pages"
    by (simp add: final_requests_def PageAdvancer_new_def msgs_server_of server_of_def comp_def)
  from nexts_final_state [OF g f l] out fc fr length_cookies_sent [of h pages None] a
  show "case nexts h ?n ?st of
         (rs, self', srv') \<Rightarrow>
           rs = map Value (yielded_items h pages) @ [Done] \<and> exhausted self' \<and> data self' = [] \<and>
           calls srv' = drop (length (pages_until_empty_cookie h pages)) (calls (server_of pages)) \<and>
           requests srv' = cookies_sent h None pages \<and>
           length (requests srv') = length (pages_until_empty_cookie h pages)"
    by (auto split: prod.splits)
  from a one_empty_cookie_page [of h pages]
  show "length (filter (\<lambda>p. cookie_is_empty (page_cookie h p)) (pages_until_empty_cookie h pages)) = 1"
    and "cookie_is_empty (page_cookie h (last (pages_until_empty_cookie h pages)))"
    by simp_all
next
  assume b: "data self = [] \<and> \<not> exhausted self \<and> calls srv = \<lparr>msgs = [m], ending = End\<rparr> # cs"
  then show step: "next h (self, srv) =
        (let self1 = self\<lparr>current := - 1, cookie := extractCookie h m,
                          exhausted := cookie_is_empty (extractCookie h m), data := []\<rparr>;
             srv1 = srv\<lparr>requests := requests srv @ [cookie self], calls := cs\<rparr>
         in if cookie_is_empty (extractCookie h m) then (Done, self1, srv1) else next h (self1, srv1))"
    by (intro next_cookie_only_page) auto
  assume ne: "\<not> cookie_is_empty (extractCookie h m)"
  let ?self1 = "self\<lparr>current := - 1, cookie := extractCookie h m,
                          exhausted := cookie_is_empty (extractCookie h m), data := []\<rparr>"
  let ?srv1 = "srv\<lparr>requests := requests srv @ [cookie self], calls := cs\<rparr>"
  from next_issues_request [of ?self1 h ?srv1] ne
  obtain more where "requests (snd (snd (next h (?self1, ?srv1)))) = requests ?srv1 @ cookie ?self1 # more"
    by auto
  with step ne show "\<exists>more. requests (snd (snd (next h (self, srv)))) =
                    requests srv @ cookie self # extractCookie h m # more"
    by (simp add: Let_def del: next.simps)
qed

theorem C4_terminates_at_empty_cookie_witness:
  "list_all (\<lambda>p. p \<noteq> []) two_pages \<and> has_empty_cookie (KeySetHelper plain_serializer) two_pages \<and>
   (case nexts (KeySetHelper plain_serializer) 4
         (PageAdvancer_new (KeySetHelper plain_serializer), server_of two_pages) of
      (rs, self', srv') \<Rightarrow>
        rs = [Value ''e1'', Value ''e2'', Value ''e3'', Done] \<and> exhausted self' \<and> data self' = [] \<and>
        calls srv' = [] \<and> requests srv' = [None, Some ''a'']) \<and>
   data (PageAdvancer_new (KeySetHelper plain_serializer)) = [] \<and>
   \<not> exhausted (PageAdvancer_new (KeySetHelper plain_serializer)) \<and>
   calls (server_of [[''a''], ['''']]) = [\<lparr>msgs = [''a''], ending = End\<rparr>, \<lparr>msgs = [''''], ending = End\<rparr>] \<and>
   next (KeySetHelper plain_serializer)
        (PageAdvancer_new (KeySetHelper plain_serializer), server_of [[''a''], ['''']]) =
     (Done, \<lparr>exhausted = True, data = [], current = - 1, cookie = Some ''''\<rparr>,
      \<lparr>calls = [], requests = [None, Some ''a''], console = []\<rparr>)"
proof -
  let ?h = "KeySetHelper plain_serializer"
  have A: "list_all (\<lambda>p. p \<noteq> []) two_pages \<and> has_empty_cookie ?h two_pages"
    by (simp add: two_pages_eval)
  have B: "data (PageAdvancer_new ?h) = [] \<and> \<not> exhausted (PageAdvancer_new ?h) \<and>
     calls (server_of [[''a''], ['''']]) = \<lparr>msgs = [''a''], ending = End\<rparr> # [\<lparr>msgs = [''''], ending = End\<rparr>]"
    by (simp add: server_of_def PageAdvancer_new_def)
  note inst = C4_terminates_at_empty_cookie [of two_pages ?h "PageAdvancer_new ?h"
      "server_of [[''a''], ['''']]" "''a''" "[\<lparr>msgs = [''''], ending = End\<rparr>]"]
  have a: "case nexts ?h (Suc (length (yielded_items ?h two_pages))) (PageAdvancer_new ?h, server_of two_pages) of
         (rs, self', srv') \<Rightarrow>
           rs = map Value (yielded_items ?h two_pages) @ [Done] \<and> exhausted self' \<and> data self' = [] \<and>
           calls srv' = drop (length (pages_until_empty_cookie ?h two_pages)) (calls (server_of two_pages)) \<and>
           requests srv' = cookies_sent ?h None two_pages \<and>
           length (requests srv') = length (pages_until_empty_cookie ?h two_pages)"
    by (rule inst [THEN conjunct1, THEN mp, OF A, THEN conjunct1])
  have b: "next ?h (PageAdvancer_new ?h, server_of [[''a''], ['''']]) =
        (let self1 = PageAdvancer_new ?h\<lparr>current := - 1, cookie := extractCookie ?h ''a'',
                          exhausted := cookie_is_empty (extractCookie ?h ''a''), data := []\<rparr>;
             srv1 = server_of [[''a''], ['''']]\<lparr>requests := requests (server_of [[''a''], ['''']]) @ [cookie (PageAdvancer_new ?h)],
                 calls := [\<lparr>msgs = [''''], ending = End\<rparr>]\<rparr>
         in if cookie_is_empty (extractCookie ?h ''a'') then (Done, self1, srv1) else next ?h (self1, srv1))"
    by (rule inst [THEN conjunct2, THEN mp, OF B, THEN conjunct1])
  have c: "drop (length two_pages) (calls (server_of two_pages)) = []"
    by (simp add: two_pages_def server_of_def)
  have d: "next ?h (PageAdvancer_new ?h, server_of [[''a''], ['''']]) =
     (Done, \<lparr>exhausted = True, data = [], current = - 1, cookie = Some ''''\<rparr>,
      \<lparr>calls = [], requests = [None, Some ''a''], console = []\<rparr>)"
    unfolding b
    by (simp add: server_of_def PageAdvancer_new_def KeySetHelper_def plain_serializer_def
        cookie_is_empty_def loadNextPage_def next.simps)
  from a have a': "case nexts ?h 4 (PageAdvancer_new ?h, server_of two_pages) of
      (rs, self', srv') \<Rightarrow>
        rs = [Value ''e1'', Value ''e2'', Value ''e3'', Done] \<and> exhausted self' \<and> data self' = [] \<and>
        calls srv' = [] \<and> requests srv' = [None, Some ''a'']"
    by (simp add: two_pages_eval c eval_nat_numeral del: next.simps nexts.simps split: prod.splits)
  from A B a' d show ?thesis by simp
qed

text \<open>
  Claim C10. Once a \<^verbatim>\<open>next()\<close> call has signalled \<^verbatim>\<open>done\<close>, the advancer is exhausted
  with an empty buffer, and any number of further calls signal \<^verbatim>\<open>done\<close> and leave the
  advancer and the server (its request log included) as they are. More generally a call on
  an exhausted advancer leaves it exhausted and issues no request.
\<close>

theorem C10_done_is_final:
  "(next h st = (Done, st') \<longrightarrow>
      exhausted (fst st') \<and> data (fst st') = [] \<and> nexts h n st' = (replicate n Done, st')) \<and>
   (exhausted (fst st) \<longrightarrow> exhausted (fst (snd (next h st))) \<and> snd (snd (next h st)) = snd st)"
  using next_Done_post [of h st st'] nexts_after_done [of st' h n] next_exhausted [of st h]
  by blast

theorem C10_done_is_final_witness:
  "next (KeySetHelper plain_serializer)
     (\<lparr>exhausted = True, data = [], current = - 1, cookie = Some ''''\<rparr>,
      \<lparr>calls = [], requests = [None, Some ''a''], console = []\<rparr>) =
     (Done, \<lparr>exhausted = True, data = [], current = - 1, cookie = Some ''''\<rparr>,
      \<lparr>calls = [], requests = [None, Some ''a''], console = []\<rparr>) \<and>
   nexts (KeySetHelper plain_serializer) 3
     (\<lparr>exhausted = True, data = [], current = - 1, cookie = Some ''''\<rparr>,
      \<lparr>calls = [], requests = [None, Some ''a''], console = []\<rparr>) =
     ([Done, Done, Done], \<lparr>exhausted = True, data = [], current = - 1, cookie = Some ''''\<rparr>,
      \<lparr>calls = [], requests = [None, Some ''a''], console = []\<rparr>)"
  using C10_done_is_final [of "KeySetHelper plain_serializer"
     "(\<lparr>exhausted = True, data = [], current = - 1, cookie = Some ''''\<rparr>,
      \<lparr>calls = [], requests = [None, Some ''a''], console = []\<rparr>)"
     "(\<lparr>exhausted = True, data = [], current = - 1, cookie = Some ''''\<rparr>,
      \<lparr>calls = [], requests = [None, Some ''a''], console = []\<rparr>)" 3]
  by (simp add: eval_nat_numeral next.simps nexts.simps)


section \<open>Properties of the remote set views\<close>

text \<open>
  Claim C7, as stated, at a \<^verbatim>\<open>KeySet\<close>: \<open>has\<close> does not throw. On a cache holding key
  "k" it returns a promise fulfilled with \<^verbatim>\<open>true\<close>.
\<close>

theorem C7_KeySet_has_counterexample:
  "view_has KeySet alist_cache (AKey ''k'') [(''k'', ''v'')] = (Inr (Fulfilled True), [(''k'', ''v'')]) \<and>
   \<not> isl (fst (view_has KeySet alist_cache (AKey ''k'') [(''k'', ''v'')]))"
  by (simp add: KeySet_has_def alist_cache_def)

text \<open>
  Claim C7, amended. On each of the three views \<open>add\<close>, \<open>forEach\<close>, the synchronous
  iterator and \<open>entries\<close>, \<open>keys\<close>, \<open>values\<close> throw; \<open>has\<close> throws on \<^verbatim>\<open>EntrySet\<close> and
  \<^verbatim>\<open>ValueSet\<close>, while \<^verbatim>\<open>KeySet.has\<close> does not throw: it returns the promise of the
  cache's \<open>containsKey\<close>.
\<close>

theorem C7_sync_operations_throw:
  "view_add w x = Inl ''add not allowed on paged set.'' \<and>
   view_forEach w f = Inl ''only async iterator supported.'' \<and>
   view_iterator w = Inl ''only async iterator supported.'' \<and>
   view_entries w = Inl ''only async iterator supported.'' \<and>
   view_keys w = Inl ''only async iterator supported.'' \<and>
   view_values w = Inl ''only async iterator supported.'' \<and>
   view_has EntrySet nc x c = (Inl ''Method not implemented.'', c) \<and>
   view_has ValueSet nc x c = (Inl ''Method not implemented.'', c) \<and>
   view_has KeySet nc (AKey k) c =
     (Inr (fst (cache_containsKey nc k c)), snd (cache_containsKey nc k c))"
  by (simp add: view_add_def view_forEach_def view_iterator_def view_entries_def view_keys_def
      view_values_def PagedSet_add_def PagedSet_forEach_def PagedSet_iterator_def
      PagedSet_entries_def PagedSet_keys_def PagedSet_values_def PagedSet_has_def KeySet_has_def
      split: prod.splits)

text \<open>
  Claim C8, on the code. \<^verbatim>\<open>KeySet.delete\<close> performs the cache's \<open>remove\<close> and, when that
  is fulfilled with \<open>v\<close>, resolves to \<^verbatim>\<open>true\<close> if \<open>v\<close> is neither \<^verbatim>\<open>null\<close> nor
  \<^verbatim>\<open>undefined\<close> and to \<^verbatim>\<open>undefined\<close> otherwise: never to \<^verbatim>\<open>false\<close>. On a cache without
  key "k" the promise is fulfilled with \<^verbatim>\<open>undefined\<close>.
\<close>

theorem C8_delete_resolves_undefined:
  "snd (KeySet_delete nc k c) = snd (cache_remove nc k c) \<and>
   fst (KeySet_delete nc k c) =
     Inr (case fst (cache_remove nc k c) of
            Fulfilled v \<Rightarrow> Fulfilled (if js_neq_null v then JBool True else JUndefined)
          | RejectedWith err \<Rightarrow> NeverSettles
          | NeverSettles \<Rightarrow> NeverSettles) \<and>
   fst (KeySet_delete nc k c) \<noteq> Inr (Fulfilled (JBool False)) \<and>
   KeySet_delete alist_cache ''k'' [] = (Inr (Fulfilled JUndefined), []) \<and>
   KeySet_delete alist_cache ''k'' [(''k'', ''v'')] = (Inr (Fulfilled (JBool True)), [])"
  by (auto simp: KeySet_delete_def alist_cache_def js_neq_null_def split: prod.splits promise.splits)

section \<open>Properties of the event multiplexer\<close>

lemma Map_get_Map_set: "Map_get (Map_set k v m) k = Some v"
  by (induction m) (auto simp: Map_get_def)

lemma ensureStream_frame:
  "store (ensureStream env self) = store self"
  "keyMap (ensureStream env self) = keyMap self"
  "filterMap (ensureStream env self) = filterMap self"
  by (simp_all add: ensureStream_def Let_def split: prod.splits)

lemma writeRequest_frame:
  "store (writeRequest env r k self) = store self"
  "keyMap (writeRequest env r k self) = keyMap self"
  "filterMap (writeRequest env r k self) = filterMap self"
  by (simp_all add: writeRequest_def Let_def write_on_def ensureStream_frame
      split: option.splits stream_promise.splits)

lemma run_steps_frame:
  "store (run_steps env gid steps self) = store self"
  "keyMap (run_steps env gid steps self) = keyMap self"
  "filterMap (run_steps env gid steps self) = filterMap self"
  by (simp_all add: run_steps_def doSubscribe_def doUnsubscribe_def writeRequest_frame
      split: list.splits step.splits option.splits prod.splits)

lemma group_addListener_present:
  "Map_get (listeners (fst (group_addListener l lite g))) l = Some lite"
  by (auto simp: group_addListener_def Let_def Map_get_Map_set)

lemma group_addListener_noop:
  "Map_get (listeners g) l = Some lite \<Longrightarrow> group_addListener l lite g = (g, [])"
  by (simp add: group_addListener_def)

lemma group_addListener_twice:
  "group_addListener l lite (fst (group_addListener l lite g)) = (fst (group_addListener l lite g), [])"
  by (rule group_addListener_noop [OF group_addListener_present])

lemma addListener_twice:
  "addListener env gid l lite (addListener env gid l lite self) = addListener env gid l lite self"
proof (cases "deref self gid")
  case None
  then show ?thesis by (simp add: addListener_def)
next
  case (Some g)
  obtain g1 steps where ga: "group_addListener l lite g = (g1, steps)"
    by (cases "group_addListener l lite g")
  let ?s1 = "run_steps env gid steps (self\<lparr>store := (store self)[gid := g1]\<rparr>)"
  have s1: "addListener env gid l lite self = ?s1"
    using Some ga by (simp add: addListener_def)
  have st: "store ?s1 = (store self)[gid := g1]" by (simp add: run_steps_frame)
  from Some have lt: "gid < length (store self)" by (simp add: deref_def split: if_splits)
  then have d1: "deref ?s1 gid = Some g1" by (simp add: deref_def st)
  from group_addListener_twice [of l lite g] ga
  have g2: "group_addListener l lite g1 = (g1, [])" by simp
  have "addListener env gid l lite ?s1 = ?s1\<lparr>store := (store ?s1)[gid := g1]\<rparr>"
    using d1 g2 by (simp add: addListener_def run_steps_def)
  also have "(store ?s1)[gid := g1] = store ?s1" by (simp add: st)
  finally show ?thesis by (simp add: s1)
qed

lemma addListener_frame:
  "keyMap (addListener env gid l lite self) = keyMap self"
  "filterMap (addListener env gid l lite self) = filterMap self"
  by (simp_all add: addListener_def run_steps_frame split: option.splits prod.splits)

lemma registerKeyListener_found:
  "Map_get (keyMap self) k = Some gid \<Longrightarrow>
   registerKeyListener env l k lite self = addListener env gid l lite self"
  by (simp add: registerKeyListener_def)

lemma registerKeyListener_fresh:
  "Map_get (keyMap self) k = None \<Longrightarrow>
   registerKeyListener env l k lite self =
     addListener env (length (store self)) l lite
       (self\<lparr>store := store self @ [ListenerGroup_new (OfKey k)],
             keyMap := Map_set k (length (store self)) (keyMap self)\<rparr>)"
  by (simp add: registerKeyListener_def new_group_def Let_def)

lemma registerKeyListener_twice:
  "registerKeyListener env l k lite (registerKeyListener env l k lite self) =
   registerKeyListener env l k lite self"
proof (cases "Map_get (keyMap self) k")
  case (Some gid)
  have r1: "registerKeyListener env l k lite self = addListener env gid l lite self"
    by (rule registerKeyListener_found [OF Some])
  have r2: "registerKeyListener env l k lite (addListener env gid l lite self) =
      addListener env gid l lite (addListener env gid l lite self)"
    by (rule registerKeyListener_found) (simp add: addListener_frame Some)
  show ?thesis by (simp only: r1 r2 addListener_twice)
next
  case None
  let ?n = "length (store self)"
  let ?s0 = "self\<lparr>store := store self @ [ListenerGroup_new (OfKey k)],
                   keyMap := Map_set k ?n (keyMap self)\<rparr>"
  have r1: "registerKeyListener env l k lite self = addListener env ?n l lite ?s0"
    by (rule registerKeyListener_fresh [OF None])
  have r2: "registerKeyListener env l k lite (addListener env ?n l lite ?s0) =
      addListener env ?n l lite (addListener env ?n l lite ?s0)"
    by (rule registerKeyListener_found) (simp add: addListener_frame Map_get_Map_set)
  show ?thesis by (simp only: r1 r2 addListener_twice)
qed

lemma registerFilterListener_found:
  "Map_get (filterMap self) (normal_filter f) = Some gid \<Longrightarrow>
   registerFilterListener env l f lite self = addListener env gid l lite self"
  by (simp add: registerFilterListener_def)

lemma registerFilterListener_fresh:
  "Map_get (filterMap self) (normal_filter f) = None \<Longrightarrow>
   registerFilterListener env l f lite self =
     addListener env (length (store self)) l lite
       (self\<lparr>store := store self @ [ListenerGroup_new (OfFilter (normal_filter f))],
             filterMap := Map_set (normal_filter f) (length (store self)) (filterMap self)\<rparr>)"
  by (simp add: registerFilterListener_def new_group_def Let_def)

lemma registerFilterListener_twice:
  "registerFilterListener env l f lite (registerFilterListener env l f lite self) =
   registerFilterListener env l f lite self"
proof (cases "Map_get (filterMap self) (normal_filter f)")
  case (Some gid)
  have r1: "registerFilterListener env l f lite self = addListener env gid l lite self"
    by (rule registerFilterListener_found [OF Some])
  have r2: "registerFilterListener env l f lite (addListener env gid l lite self) =
      addListener env gid l lite (addListener env gid l lite self)"
    by (rule registerFilterListener_found) (simp add: addListener_frame Some)
  show ?thesis by (simp only: r1 r2 addListener_twice)
next
  case None
  let ?n = "length (store self)"
  let ?s0 = "self\<lparr>store := store self @ [ListenerGroup_new (OfFilter (normal_filter f))],
                   filterMap := Map_set (normal_filter f) ?n (filterMap self)\<rparr>"
  have r1: "registerFilterListener env l f lite self = addListener env ?n l lite ?s0"
    by (rule registerFilterListener_fresh [OF None])
  have r2: "registerFilterListener env l f lite (addListener env ?n l lite ?s0) =
      addListener env ?n l lite (addListener env ?n l lite ?s0)"
    by (rule registerFilterListener_found) (simp add: addListener_frame Map_get_Map_set)
  show ?thesis by (simp only: r1 r2 addListener_twice)
qed

lemma request_fields:
  "getUid (subscribeRequest env t b n) = n"
  "getType (subscribeRequest env t b n) = SUBSCRIBE"
  "getLite (subscribeRequest env t b n) = b"
  "getUid (unsubscribeRequest env t n) = n"
  "getType (unsubscribeRequest env t n) = UNSUBSCRIBE"
  by (simp_all add: subscribeRequest_def unsubscribeRequest_def mapListenerRequest_def)

lemma doSubscribe_resolved:
  "streamPromise self = Some (PromiseResolved st) \<Longrightarrow> deref self gid = Some g \<Longrightarrow>
   doSubscribe env gid b rest self =
     write_on st (subscribeRequest env (keyOrFilter g) b (reqFactory self))
       \<lparr>cont_group = gid, cont_subscribe = True, cont_rest = rest\<rparr>
       (self\<lparr>reqFactory := Suc (reqFactory self)\<rparr>)"
  by (simp add: doSubscribe_def writeRequest_def ensureStream_def mapListenerRequest_def Let_def
      subscribeRequest_def)

lemma doUnsubscribe_resolved:
  "streamPromise self = Some (PromiseResolved st) \<Longrightarrow> deref self gid = Some g \<Longrightarrow>
   doUnsubscribe env gid rest self =
     write_on st (unsubscribeRequest env (keyOrFilter g) (reqFactory self))
       \<lparr>cont_group = gid, cont_subscribe = False, cont_rest = rest\<rparr>
       (self\<lparr>reqFactory := Suc (reqFactory self)\<rparr>)"
  by (simp add: doUnsubscribe_def writeRequest_def ensureStream_def mapListenerRequest_def Let_def
      unsubscribeRequest_def)

lemma group_addListener_target:
  "keyOrFilter (fst (group_addListener l lite g)) = keyOrFilter g"
  by (simp add: group_addListener_def Let_def)

lemma group_addListener_first:
  "Map_get (listeners g) l \<noteq> Some lite \<Longrightarrow> Map_size (Map_set l lite (listeners g)) = 1 \<Longrightarrow>
   snd (group_addListener l lite g) = [DoSubscribe lite]"
  by (auto simp: group_addListener_def Let_def)

lemma group_addListener_upgrade:
  "Map_get (listeners g) l \<noteq> Some lite \<Longrightarrow> 1 < Map_size (Map_set l lite (listeners g)) \<Longrightarrow>
   registeredIsLite g \<Longrightarrow> \<not> lite \<Longrightarrow>
   snd (group_addListener l lite g) = [DoUnsubscribe, DoSubscribe False]"
  by (auto simp: group_addListener_def Let_def)

lemma group_addListener_join:
  "Map_get (listeners g) l \<noteq> Some lite \<Longrightarrow> 1 < Map_size (Map_set l lite (listeners g)) \<Longrightarrow>
   \<not> (registeredIsLite g \<and> \<not> lite) \<Longrightarrow>
   snd (group_addListener l lite g) = []"
  by (auto simp: group_addListener_def Let_def)

lemma addListener_unfold:
  "deref self gid = Some g \<Longrightarrow>
   addListener env gid l lite self =
     run_steps env gid (snd (group_addListener l lite g))
       (self\<lparr>store := (store self)[gid := fst (group_addListener l lite g)]\<rparr>)"
  by (simp add: addListener_def split: prod.splits)

lemma deref_updated:
  "deref self gid = Some g \<Longrightarrow> deref (self\<lparr>store := (store self)[gid := g']\<rparr>) gid = Some g'"
  by (simp add: deref_def split: if_splits)

lemma addListener_present:
  "deref self gid = Some g \<Longrightarrow> Map_get (listeners g) l = Some lite \<Longrightarrow>
   addListener env gid l lite self = self"
proof -
  assume d: "deref self gid = Some g" and m: "Map_get (listeners g) l = Some lite"
  from d have "(store self)[gid := g] = store self"
    by (auto simp: deref_def split: if_splits)
  then show ?thesis
    by (simp add: addListener_unfold [OF d] group_addListener_noop [OF m] run_steps_def)
qed

lemma addListener_first:
  assumes "streamPromise self = Some (PromiseResolved st)" "deref self gid = Some g"
    "Map_get (listeners g) l \<noteq> Some lite" "Map_size (Map_set l lite (listeners g)) = 1"
  shows "wire (addListener env gid l lite self) =
     wire self @ [Write st (subscribeRequest env (keyOrFilter g) lite (reqFactory self))]"
proof -
  let ?g' = "fst (group_addListener l lite g)"
  let ?s1 = "self\<lparr>store := (store self)[gid := ?g']\<rparr>"
  have d: "deref ?s1 gid = Some ?g'" by (rule deref_updated [OF assms(2)])
  have p: "streamPromise ?s1 = Some (PromiseResolved st)" using assms(1) by simp
  show ?thesis
    by (simp add: addListener_unfold [OF assms(2)] group_addListener_first [OF assms(3,4)]
        run_steps_def doSubscribe_resolved [OF p d] write_on_def group_addListener_target)
qed

lemma addListener_join:
  assumes "deref self gid = Some g"
    "Map_get (listeners g) l \<noteq> Some lite" "1 < Map_size (Map_set l lite (listeners g))"
    "\<not> (registeredIsLite g \<and> \<not> lite)"
  shows "wire (addListener env gid l lite self) = wire self"
  by (simp add: addListener_unfold [OF assms(1)] group_addListener_join [OF assms(2,3,4)] run_steps_def)

lemma postUnsubscribe_frame:
  "wire (postUnsubscribe env gid r self) = wire self"
  "streamPromise (postUnsubscribe env gid r self) = streamPromise self"
  "store (postUnsubscribe env gid r self) = store self"
  "reqFactory (postUnsubscribe env gid r self) = reqFactory self"
  by (simp_all add: postUnsubscribe_def keyGroupUnsubscribed_def filterGroupUnsubscribed_def
      split: option.splits target.splits)

lemma deref_cong: "store a = store b \<Longrightarrow> deref a gid = deref b gid"
  by (simp add: deref_def)

lemma addListener_upgrade:
  assumes "streamPromise self = Some (PromiseResolved st)" "deref self gid = Some g"
    "Map_get (listeners g) l \<noteq> Some lite" "1 < Map_size (Map_set l lite (listeners g))"
    "registeredIsLite g" "\<not> lite"
  shows "wire (addListener env gid l lite self) =
           wire self @ [Write st (unsubscribeRequest env (keyOrFilter g) (reqFactory self))]"
    and "wire (handleResponse env (Unsubscribed (Some (reqFactory self)))
                 (addListener env gid l lite self)) =
           wire self @ [Write st (unsubscribeRequest env (keyOrFilter g) (reqFactory self)),
                        Write st (subscribeRequest env (keyOrFilter g) False (Suc (reqFactory self)))]"
proof -
  let ?g' = "fst (group_addListener l lite g)"
  let ?s1 = "self\<lparr>store := (store self)[gid := ?g']\<rparr>"
  let ?u = "unsubscribeRequest env (keyOrFilter g) (reqFactory self)"
  let ?k = "\<lparr>cont_group = gid, cont_subscribe = False, cont_rest = [DoSubscribe False]\<rparr>"
  have d: "deref ?s1 gid = Some ?g'" by (rule deref_updated [OF assms(2)])
  have p: "streamPromise ?s1 = Some (PromiseResolved st)" using assms(1) by simp
  have a: "addListener env gid l lite self = write_on st ?u ?k (?s1\<lparr>reqFactory := Suc (reqFactory self)\<rparr>)"
    by (simp add: addListener_unfold [OF assms(2)] group_addListener_upgrade [OF assms(3,4,5,6)]
        run_steps_def doUnsubscribe_resolved [OF p d] group_addListener_target)
  show "wire (addListener env gid l lite self) = wire self @ [Write st ?u]"
    by (simp add: a write_on_def)
  let ?s2 = "write_on st ?u ?k (?s1\<lparr>reqFactory := Suc (reqFactory self)\<rparr>)"
  let ?s3 = "?s2\<lparr>pendingSubscriptions := Map_delete (reqFactory self) (Map_delete (reqFactory self) (pendingSubscriptions ?s2)),
                 settled := settled ?s2 @ [AckResolved (reqFactory self)]\<rparr>"
  let ?s4 = "postUnsubscribe env gid ?u ?s3"
  have g: "Map_get (pendingSubscriptions ?s2) (reqFactory self) = Some (RequestCallback ?k ?u)"
    by (simp add: write_on_def Map_get_Map_set request_fields)
  have h: "handleResponse env (Unsubscribed (Some (reqFactory self))) ?s2 =
      run_steps env gid [DoSubscribe False] ?s4"
    by (simp add: handleResponse_def g invoke_callback_def Let_def)
  have d4: "deref ?s4 gid = Some ?g'"
    using d by (simp add: deref_def postUnsubscribe_frame write_on_def split: if_splits)
  have p4: "streamPromise ?s4 = Some (PromiseResolved st)"
    using assms(1) by (simp add: postUnsubscribe_frame write_on_def)
  show "wire (handleResponse env (Unsubscribed (Some (reqFactory self)))
                 (addListener env gid l lite self)) =
           wire self @ [Write st ?u,
                        Write st (subscribeRequest env (keyOrFilter g) False (Suc (reqFactory self)))]"
    unfolding a h run_steps_def list.case step.case doSubscribe_resolved [OF p4 d4]
    by (simp add: write_on_def postUnsubscribe_frame group_addListener_target)
qed

lemma registerKeyListener_new_key:
  assumes "streamPromise self = Some (PromiseResolved st)" "Map_get (keyMap self) k = None"
  shows "wire (registerKeyListener env l k lite (registerKeyListener env l k lite self)) =
     wire self @ [Write st (subscribeRequest env (OfKey k) lite (reqFactory self))]"
proof -
  let ?n = "length (store self)"
  let ?s0 = "self\<lparr>store := store self @ [ListenerGroup_new (OfKey k)],
                   keyMap := Map_set k ?n (keyMap self)\<rparr>"
  have p: "streamPromise ?s0 = Some (PromiseResolved st)" using assms(1) by simp
  have d: "deref ?s0 ?n = Some (ListenerGroup_new (OfKey k))" by (simp add: deref_def)
  have w: "wire (addListener env ?n l lite ?s0) =
      wire self @ [Write st (subscribeRequest env (OfKey k) lite (reqFactory self))]"
    using addListener_first [OF p d, of l lite env]
    by (simp add: ListenerGroup_new_def Map_get_def Map_size_def)
  have e: "registerKeyListener env l k lite (registerKeyListener env l k lite self) =
      addListener env ?n l lite ?s0"
    by (rule trans [OF registerKeyListener_twice registerKeyListener_fresh [OF assms(2)]])
  show ?thesis by (simp only: e w)
qed

lemma registerFilterListener_new_filter:
  assumes "streamPromise self = Some (PromiseResolved st)" "Map_get (filterMap self) (normal_filter f) = None"
  shows "wire (registerFilterListener env l f lite (registerFilterListener env l f lite self)) =
     wire self @ [Write st (subscribeRequest env (OfFilter (normal_filter f)) lite (reqFactory self))]"
proof -
  let ?n = "length (store self)"
  let ?s0 = "self\<lparr>store := store self @ [ListenerGroup_new (OfFilter (normal_filter f))],
                   filterMap := Map_set (normal_filter f) ?n (filterMap self)\<rparr>"
  have p: "streamPromise ?s0 = Some (PromiseResolved st)" using assms(1) by simp
  have d: "deref ?s0 ?n = Some (ListenerGroup_new (OfFilter (normal_filter f)))" by (simp add: deref_def)
  have w: "wire (addListener env ?n l lite ?s0) =
      wire self @ [Write st (subscribeRequest env (OfFilter (normal_filter f)) lite (reqFactory self))]"
    using addListener_first [OF p d, of l lite env]
    by (simp add: ListenerGroup_new_def Map_get_def Map_size_def)
  have e: "registerFilterListener env l f lite (registerFilterListener env l f lite self) =
      addListener env ?n l lite ?s0"
    by (rule trans [OF registerFilterListener_twice registerFilterListener_fresh [OF assms(2)]])
  show ?thesis by (simp only: e w)
qed

lemma is_subscribe_write_subscribeRequest:
  "is_subscribe_write (Write st (subscribeRequest env t b n))"
  by (simp add: is_subscribe_write_def request_fields)

lemmas manager_defs = run_def MapEventsManager_new_def ensureStream_def mapEventSubscribe_def
  mapListenerRequest_def handleResponse_def invoke_callback_def registerKeyListener_def
  new_group_def addListener_def group_addListener_def run_steps_def doSubscribe_def
  doUnsubscribe_def writeRequest_def write_on_def close_on_def run_waiter_def deref_def
  postSubscribe_def postUnsubscribe_def keyGroupUnsubscribed_def Map_get_def Map_delete_def
  Map_size_def Map_keys_def Let_def is_subscribe_write_def closeEventStream_def streamError_def
  onError_def keyGroup_def removeKeyListener_def removeListener_def group_removeListener_def
  ListenerGroup_new_def indexOf_def truthy_number_def

lemma one_subscribe_after_init:
  "length (filter is_subscribe_write (wire (run env
      [OnData (Subscribed (Some 0)), RegisterKeyListener l k lite, RegisterKeyListener l k lite]
      (MapEventsManager_new env)))) = 1"
  by (cases lite) (auto simp: manager_defs)

lemma one_subscribe_before_init:
  "length (filter is_subscribe_write (wire (run env
      [RegisterKeyListener l k lite, RegisterKeyListener l k lite, OnData (Subscribed (Some 0))]
      (MapEventsManager_new env)))) = 1"
  by (cases lite) (auto simp: manager_defs)

lemma one_lite_listener_eval:
  "one_lite_listener =
    \<lparr>streamPromise = Some (PromiseResolved 0), markedForClose = False,
     pendingSubscriptions = [], keyMap = [(''k'', 0)], filterMap = [],
     filterId2ListenerGroup = [],
     store =
       [\<lparr>isActive = True, keyOrFilter = OfKey ''k'', registeredIsLite = True,
         listeners = [(''h1'', True)], isLiteFalseCount = 0\<rparr>],
     reqFactory = 2, streamsOpened = 1, closeHandlerOn = None,
     closeResolved = False,
     wire =
       [Events 0,
        Write 0 \<lparr>getUid = 0, getType = INIT, getLite = False, getKey = [],
                 getFilter = None, getFilterid = 0\<rparr>,
        Write 0 \<lparr>getUid = 1, getType = SUBSCRIBE, getLite = True, getKey = ''k'',
                 getFilter = None, getFilterid = 0\<rparr>],
     emitted = [], settled = [AckResolved 1], notified = [], uncaught = []\<rparr>"
  by (simp add: one_lite_listener_def manager_defs plain_env_def)

text \<open>
  Claim C9, as stated, at a group that already holds a lite listener: registering a second
  lite listener "h2" on the same key twice adds "h2" to that group and writes no request
  at all, so the two calls produce no SUBSCRIBE (the only one on the wire is the one written
  for "h1" before).
\<close>

theorem C9_joining_a_group_counterexample:
  "wire (run plain_env
      [RegisterKeyListener ''h2'' ''k'' True, RegisterKeyListener ''h2'' ''k'' True]
      one_lite_listener) = wire one_lite_listener \<and>
   length (filter is_subscribe_write (wire (run plain_env
      [RegisterKeyListener ''h2'' ''k'' True, RegisterKeyListener ''h2'' ''k'' True]
      one_lite_listener))) = length (filter is_subscribe_write (wire one_lite_listener)) \<and>
   keyGroup (run plain_env
      [RegisterKeyListener ''h2'' ''k'' True, RegisterKeyListener ''h2'' ''k'' True]
      one_lite_listener) ''k'' =
     Some \<lparr>isActive = True, keyOrFilter = OfKey ''k'', registeredIsLite = True,
           listeners = [(''h1'', True), (''h2'', True)], isLiteFalseCount = 0\<rparr>"
  by (simp add: one_lite_listener_eval manager_defs plain_env_def)

text \<open>
  Claim C9, amended. Adding the same listener with the same lite flag a second time is a
  no-op: the group is returned as it is with nothing to await, and at the manager the second
  \<^verbatim>\<open>addListener\<close>, \<^verbatim>\<open>registerKeyListener\<close> or \<^verbatim>\<open>registerFilterListener\<close> leaves the whole
  state, the requests written included, as the first call left it. What the two calls write
  is therefore what the first writes. On a manager whose stream is initialised, for a group
  \<open>g\<close> of any target (key or filter):
  \<^item> when the listener is already in the group with that flag, nothing changes;
  \<^item> when the call makes it the group's only listener, exactly one request is written, the
    SUBSCRIBE for the group's target with the listener's lite flag;
  \<^item> when the group has other listeners, is registered lite and the listener is not lite, one
    UNSUBSCRIBE is written and, once it is acknowledged, one SUBSCRIBE with lite = false;
  \<^item> in every other case the listener joins the group and no request is written.
  In particular two registrations for a key or a filter that has no group yet write exactly
  one SUBSCRIBE, on any such manager; on a new manager they do so whether the stream's INIT
  request is acknowledged before or after them.
\<close>

theorem C9_addListener_twice_requests:
  "group_addListener l lite (fst (group_addListener l lite g)) = (fst (group_addListener l lite g), []) \<and>
   addListener env gid l lite (addListener env gid l lite self) = addListener env gid l lite self \<and>
   registerKeyListener env l k lite (registerKeyListener env l k lite self) =
     registerKeyListener env l k lite self \<and>
   registerFilterListener env l f lite (registerFilterListener env l f lite self) =
     registerFilterListener env l f lite self \<and>
   (streamPromise self = Some (PromiseResolved st) \<and> deref self gid = Some g \<longrightarrow>
      (Map_get (listeners g) l = Some lite \<longrightarrow> addListener env gid l lite self = self) \<and>
      (Map_get (listeners g) l \<noteq> Some lite \<and> Map_size (Map_set l lite (listeners g)) = 1 \<longrightarrow>
         wire (addListener env gid l lite self) =
           wire self @ [Write st (subscribeRequest env (keyOrFilter g) lite (reqFactory self))]) \<and>
      (Map_get (listeners g) l \<noteq> Some lite \<and> 1 < Map_size (Map_set l lite (listeners g)) \<and>
       registeredIsLite g \<and> \<not> lite \<longrightarrow>
         wire (addListener env gid l lite self) =
           wire self @ [Write st (unsubscribeRequest env (keyOrFilter g) (reqFactory self))] \<and>
         wire (handleResponse env (Unsubscribed (Some (reqFactory self)))
                 (addListener env gid l lite self)) =
           wire self @ [Write st (unsubscribeRequest env (keyOrFilter g) (reqFactory self)),
                        Write st (subscribeRequest env (keyOrFilter g) False (Suc (reqFactory self)))]) \<and>
      (Map_get (listeners g) l \<noteq> Some lite \<and> 1 < Map_size (Map_set l lite (listeners g)) \<and>
       \<not> (registeredIsLite g \<and> \<not> lite) \<longrightarrow>
         wire (addListener env gid l lite self) = wire self)) \<and>
   (streamPromise self = Some (PromiseResolved st) \<and> Map_get (keyMap self) k = None \<longrightarrow>
      wire (registerKeyListener env l k lite (registerKeyListener env l k lite self)) =
        wire self @ [Write st (subscribeRequest env (OfKey k) lite (reqFactory self))] \<and>
      length (filter is_subscribe_write
                (wire (registerKeyListener env l k lite (registerKeyListener env l k lite self)))) =
        Suc (length (filter is_subscribe_write (wire self)))) \<and>
   (streamPromise self = Some (PromiseResolved st) \<and> Map_get (filterMap self) (normal_filter f) = None \<longrightarrow>
      wire (registerFilterListener env l f lite (registerFilterListener env l f lite self)) =
        wire self @ [Write st (subscribeRequest env (OfFilter (normal_filter f)) lite (reqFactory self))] \<and>
      length (filter is_subscribe_write
                (wire (registerFilterListener env l f lite (registerFilterListener env l f lite self)))) =
        Suc (length (filter is_subscribe_write (wire self)))) \<and>
   length (filter is_subscribe_write (wire (run env
      [OnData (Subscribed (Some 0)), RegisterKeyListener l k lite, RegisterKeyListener l k lite]
      (MapEventsManager_new env)))) = 1 \<and>
   length (filter is_subscribe_write (wire (run env
      [RegisterKeyListener l k lite, RegisterKeyListener l k lite, OnData (Subscribed (Some 0))]
      (MapEventsManager_new env)))) = 1"
proof -
  have group_level: "streamPromise self = Some (PromiseResolved st) \<and> deref self gid = Some g \<longrightarrow>
      (Map_get (listeners g) l = Some lite \<longrightarrow> addListener env gid l lite self = self) \<and>
      (Map_get (listeners g) l \<noteq> Some lite \<and> Map_size (Map_set l lite (listeners g)) = 1 \<longrightarrow>
         wire (addListener env gid l lite self) =
           wire self @ [Write st (subscribeRequest env (keyOrFilter g) lite (reqFactory self))]) \<and>
      (Map_get (listeners g) l \<noteq> Some lite \<and> 1 < Map_size (Map_set l lite (listeners g)) \<and>
       registeredIsLite g \<and> \<not> lite \<longrightarrow>
         wire (addListener env gid l lite self) =
           wire self @ [Write st (unsubscribeRequest env (keyOrFilter g) (reqFactory self))] \<and>
         wire (handleResponse env (Unsubscribed (Some (reqFactory self)))
                 (addListener env gid l lite self)) =
           wire self @ [Write st (unsubscribeRequest env (keyOrFilter g) (reqFactory self)),
                        Write st (subscribeRequest env (keyOrFilter g) False (Suc (reqFactory self)))]) \<and>
      (Map_get (listeners g) l \<noteq> Some lite \<and> 1 < Map_size (Map_set l lite (listeners g)) \<and>
       \<not> (registeredIsLite g \<and> \<not> lite) \<longrightarrow>
         wire (addListener env gid l lite self) = wire self)"
  proof (intro impI conjI; (elim conjE)?)
    assume p: "streamPromise self = Some (PromiseResolved st)" and d: "deref self gid = Some g"
    {
      assume "Map_get (listeners g) l = Some lite"
      then show "addListener env gid l lite self = self" by (rule addListener_present [OF d])
    next
      assume "Map_get (listeners g) l \<noteq> Some lite" "Map_size (Map_set l lite (listeners g)) = 1"
      then show "wire (addListener env gid l lite self) =
           wire self @ [Write st (subscribeRequest env (keyOrFilter g) lite (reqFactory self))]"
        by (rule addListener_first [OF p d])
    next
      assume a: "Map_get (listeners g) l \<noteq> Some lite" "1 < Map_size (Map_set l lite (listeners g))"
        "registeredIsLite g" "\<not> lite"
      show "wire (addListener env gid l lite self) =
           wire self @ [Write st (unsubscribeRequest env (keyOrFilter g) (reqFactory self))]"
        by (rule addListener_upgrade(1) [OF p d a])
      show "wire (handleResponse env (Unsubscribed (Some (reqFactory self)))
                 (addListener env gid l lite self)) =
           wire self @ [Write st (unsubscribeRequest env (keyOrFilter g) (reqFactory self)),
                        Write st (subscribeRequest env (keyOrFilter g) False (Suc (reqFactory self)))]"
        by (rule addListener_upgrade(2) [OF p d a])
    next
      assume "Map_get (listeners g) l \<noteq> Some lite" "1 < Map_size (Map_set l lite (listeners g))"
        "\<not> (registeredIsLite g \<and> \<not> lite)"
      then show "wire (addListener env gid l lite self) = wire self"
        by (rule addListener_join [OF d])
    }
  qed
  have new_key: "streamPromise self = Some (PromiseResolved st) \<and> Map_get (keyMap self) k = None \<longrightarrow>
      wire (registerKeyListener env l k lite (registerKeyListener env l k lite self)) =
        wire self @ [Write st (subscribeRequest env (OfKey k) lite (reqFactory self))] \<and>
      length (filter is_subscribe_write
                (wire (registerKeyListener env l k lite (registerKeyListener env l k lite self)))) =
        Suc (length (filter is_subscribe_write (wire self)))"
    by (simp add: registerKeyListener_new_key is_subscribe_write_subscribeRequest)
  have new_filter: "streamPromise self = Some (PromiseResolved st) \<and> Map_get (filterMap self) (normal_filter f) = None \<longrightarrow>
      wire (registerFilterListener env l f lite (registerFilterListener env l f lite self)) =
        wire self @ [Write st (subscribeRequest env (OfFilter (normal_filter f)) lite (reqFactory self))] \<and>
      length (filter is_subscribe_write
                (wire (registerFilterListener env l f lite (registerFilterListener env l f lite self)))) =
        Suc (length (filter is_subscribe_write (wire self)))"
    by (simp add: registerFilterListener_new_filter is_subscribe_write_subscribeRequest)
  show ?thesis
    by (intro conjI group_level new_key new_filter group_addListener_twice addListener_twice
        registerKeyListener_twice registerFilterListener_twice one_subscribe_after_init
        one_subscribe_before_init)
qed

theorem C9_addListener_twice_requests_witness:
  "streamPromise one_lite_listener = Some (PromiseResolved 0) \<and>
   deref one_lite_listener 0 =
     Some \<lparr>isActive = True, keyOrFilter = OfKey ''k'', registeredIsLite = True,
           listeners = [(''h1'', True)], isLiteFalseCount = 0\<rparr> \<and>
   wire (addListener plain_env 0 ''h2'' False one_lite_listener) =
     wire one_lite_listener @
     [Write 0 \<lparr>getUid = 2, getType = UNSUBSCRIBE, getLite = False, getKey = ''k'',
               getFilter = None, getFilterid = 0\<rparr>] \<and>
   wire (handleResponse plain_env (Unsubscribed (Some 2))
           (addListener plain_env 0 ''h2'' False one_lite_listener)) =
     wire one_lite_listener @
     [Write 0 \<lparr>getUid = 2, getType = UNSUBSCRIBE, getLite = False, getKey = ''k'',
               getFilter = None, getFilterid = 0\<rparr>,
      Write 0 \<lparr>getUid = 3, getType = SUBSCRIBE, getLite = False, getKey = ''k'',
               getFilter = None, getFilterid = 0\<rparr>] \<and>
   Map_get (keyMap one_lite_listener) ''k2'' = None \<and>
   wire (registerKeyListener plain_env ''h2'' ''k2'' False
           (registerKeyListener plain_env ''h2'' ''k2'' False one_lite_listener)) =
     wire one_lite_listener @
     [Write 0 \<lparr>getUid = 2, getType = SUBSCRIBE, getLite = False, getKey = ''k2'',
               getFilter = None, getFilterid = 0\<rparr>] \<and>
   Map_get (filterMap one_lite_listener) (normal_filter None) = None \<and>
   wire (registerFilterListener plain_env ''h2'' None False
           (registerFilterListener plain_env ''h2'' None False one_lite_listener)) =
     wire one_lite_listener @
     [Write 0 \<lparr>getUid = 2, getType = SUBSCRIBE, getLite = False, getKey = [],
               getFilter = Some DEFAULT_FILTER, getFilterid = 2\<rparr>]"
proof -
  let ?g = "\<lparr>isActive = True, keyOrFilter = OfKey ''k'', registeredIsLite = True,
           listeners = [(''h1'', True)], isLiteFalseCount = 0\<rparr> :: (string, string, string) ListenerGroup"
  note inst = C9_addListener_twice_requests [of "''h2''" False ?g plain_env 0 one_lite_listener
      "''k2''" None 0]
  have p: "streamPromise one_lite_listener = Some (PromiseResolved 0)"
    by (simp add: one_lite_listener_eval)
  have d: "deref one_lite_listener 0 = Some ?g"
    by (simp add: one_lite_listener_eval deref_def)
  have up: "Map_get (listeners ?g) ''h2'' \<noteq> Some False \<and>
      1 < Map_size (Map_set ''h2'' False (listeners ?g)) \<and> registeredIsLite ?g \<and> \<not> False"
    by (simp add: Map_get_def Map_size_def)
  have nk: "Map_get (keyMap one_lite_listener) ''k2'' = None"
    by (simp add: one_lite_listener_eval Map_get_def)
  have nf: "Map_get (filterMap one_lite_listener) (normal_filter None) = None"
    by (simp add: one_lite_listener_eval Map_get_def)
  note grp = inst [THEN conjunct2, THEN conjunct2, THEN conjunct2, THEN conjunct2, THEN conjunct1,
      THEN mp, OF conjI [OF p d]]
  note upg = grp [THEN conjunct2, THEN conjunct2, THEN conjunct1, THEN mp, OF up]
  note key = inst [THEN conjunct2, THEN conjunct2, THEN conjunct2, THEN conjunct2, THEN conjunct2,
      THEN conjunct1, THEN mp, OF conjI [OF p nk], THEN conjunct1]
  note fil = inst [THEN conjunct2, THEN conjunct2, THEN conjunct2, THEN conjunct2, THEN conjunct2,
      THEN conjunct2, THEN conjunct1, THEN mp, OF conjI [OF p nf], THEN conjunct1]
  have rq: "reqFactory one_lite_listener = 2" by (simp add: one_lite_listener_eval)
  have reqs:
    "unsubscribeRequest plain_env (OfKey ''k'') 2 =
       \<lparr>getUid = 2, getType = UNSUBSCRIBE, getLite = False, getKey = ''k'',
        getFilter = None, getFilterid = 0\<rparr>"
    "subscribeRequest plain_env (OfKey ''k'') False 3 =
       \<lparr>getUid = 3, getType = SUBSCRIBE, getLite = False, getKey = ''k'',
        getFilter = None, getFilterid = 0\<rparr>"
    "subscribeRequest plain_env (OfKey ''k2'') False 2 =
       \<lparr>getUid = 2, getType = SUBSCRIBE, getLite = False, getKey = ''k2'',
        getFilter = None, getFilterid = 0\<rparr>"
    "subscribeRequest plain_env (OfFilter DEFAULT_FILTER) False 2 =
       \<lparr>getUid = 2, getType = SUBSCRIBE, getLite = False, getKey = [],
        getFilter = Some DEFAULT_FILTER, getFilterid = 2\<rparr>"
    by (simp_all add: subscribeRequest_def unsubscribeRequest_def mapListenerRequest_def plain_env_def)
  have nn: "normal_filter None = (DEFAULT_FILTER :: string filter_ref)"
    by (simp add: normal_filter_def)
  from upg key fil p d nk nf show ?thesis
    by (simp add: rq reqs nn)
qed

text \<open>
  Claim C1, on the code. Register listener "h" on key "k" with lite = false, then register it
  again with lite = true (every request acknowledged). The group is the one the key map holds
  for "k"; its only record is lite and \<open>registeredIsLite\<close> is true, but \<open>isLiteFalseCount\<close> is
  still 1: the count was raised by the first call and nothing lowers it when the record is
  replaced. The same holds for a new group of any target. Third conjunct: after a lite
  listener, a non-lite listener and the removal of the latter, the count is back to 0 while
  \<open>registeredIsLite\<close> stays false: \<^verbatim>\<open>removeListener\<close> resubscribes with lite = true without
  setting the field.
\<close>

theorem C1_registeredIsLite_vs_count:
  "keyGroup (run plain_env
      [OnData (Subscribed (Some 0)),
       RegisterKeyListener ''h'' ''k'' False, OnData (Subscribed (Some 1)),
       RegisterKeyListener ''h'' ''k'' True, OnData (Subscribed (Some 2))]
      (MapEventsManager_new plain_env)) ''k'' =
     Some \<lparr>isActive = True, keyOrFilter = OfKey ''k'', registeredIsLite = True,
           listeners = [(''h'', True)], isLiteFalseCount = 1\<rparr> \<and>
   fst (group_addListener l True (fst (group_addListener l False (ListenerGroup_new t)))) =
     \<lparr>isActive = True, keyOrFilter = t, registeredIsLite = True,
      listeners = [(l, True)], isLiteFalseCount = 1\<rparr> \<and>
   fst (group_removeListener ''h2''
          (fst (group_addListener ''h2'' False
             (fst (group_addListener ''h1'' True (ListenerGroup_new t)))))) =
     \<lparr>isActive = True, keyOrFilter = t, registeredIsLite = False,
      listeners = [(''h1'', True)], isLiteFalseCount = 0\<rparr>"
  by (simp add: manager_defs plain_env_def)

text \<open>
  Claim C3, on the code. Neither \<^verbatim>\<open>closeEventStream\<close> nor the stream's 'error' event
  touches \<^verbatim>\<open>pendingSubscriptions\<close> or settles a pending acknowledgement. In the run of the
  specification's scenario 6 (a SUBSCRIBE written, then close, then the CANCELLED error of the
  cancelled stream) the close completes, the stream has been cancelled and nothing is
  emitted, but the entry of the SUBSCRIBE request (uid 1) is still pending and its promise is
  neither resolved nor rejected.
\<close>

theorem C3_close_leaves_pending_acks:
  "pendingSubscriptions (closeEventStream env self) = pendingSubscriptions self \<and>
   settled (closeEventStream env self) = settled self \<and>
   pendingSubscriptions (streamError env b err self) = pendingSubscriptions self \<and>
   settled (streamError env b err self) = settled self \<and>
   (let s = run plain_env
        [OnData (Subscribed (Some 0)), RegisterKeyListener ''h'' ''k'' True,
         CloseEventStream, OnStreamError 0 ''Error: 1 CANCELLED: Cancelled on client'']
        (MapEventsManager_new plain_env)
    in closeResolved s \<and> markedForClose s \<and> streamPromise s = None \<and>
       last (wire s) = Cancel 0 \<and> emitted s = [] \<and> settled s = [] \<and>
       Map_keys (pendingSubscriptions s) = [1])"
  by (simp add: manager_defs plain_env_def split: option.splits stream_promise.splits)

text \<open>
  Claim C6, on the code. The constructor itself calls \<^verbatim>\<open>ensureStream\<close>: a new manager, with
  no listener registered and no group, has already opened the duplex stream and written the
  INIT request.
\<close>

theorem C6_constructor_opens_stream:
  "wire (MapEventsManager_new env) =
     [Events 0,
      Write 0 \<lparr>getUid = 0, getType = INIT, getLite = False, getKey = [], getFilter = None,
               getFilterid = 0\<rparr>] \<and>
   streamPromise (MapEventsManager_new env) = Some (PromisePending 0 []) \<and>
   streamsOpened (MapEventsManager_new env) = 1 \<and>
   keyMap (MapEventsManager_new env) = [] \<and>
   filterMap (MapEventsManager_new env) = [] \<and>
   store (MapEventsManager_new env) = []"
  by (simp add: manager_defs)

lemma notify_loop_char:
  "getId ev \<noteq> OTHER_ID \<Longrightarrow>
   notify_loop env ev ks =
     (case dropWhile (\<lambda>l. listenerSink env l (getId ev) ev = None) ks of
        [] \<Rightarrow> (None, map (\<lambda>l. (l, getId ev)) ks)
      | l # rest \<Rightarrow>
          (listenerSink env l (getId ev) ev,
           map (\<lambda>l. (l, getId ev)) (takeWhile (\<lambda>l. listenerSink env l (getId ev) ev = None) ks @ [l])))"
proof (induction ks)
  case Nil
  then show ?case by simp
next
  case (Cons a ks)
  show ?case
  proof (cases "listenerSink env a (getId ev) ev")
    case None
    note IH = Cons.IH [OF Cons.prems]
    show ?thesis
    proof (cases "dropWhile (\<lambda>l. listenerSink env l (getId ev) ev = None) ks")
      case Nil
      from IH None Cons.prems show ?thesis by (simp add: Nil)
    next
      case (Cons b bs)
      from IH None Cons.prems show ?thesis by (simp add: Cons)
    qed
  next
    case (Some e)
    with Cons.prems show ?thesis by simp
  qed
qed

lemma notify_loop_other: "getId ev = OTHER_ID \<Longrightarrow> notify_loop env ev ks = (None, [])"
  by (induction ks) auto

text \<open>
  Claim C5, as stated, at a group of three listeners whose second one throws: the loop ends
  with that error and the third listener is never called.
\<close>

theorem C5_throw_aborts_dispatch_counterexample:
  "notifyListeners plain_env
     (ListenerGroup_new (OfKey ''k'')\<lparr>listeners := [(''a'', True), (''boom'', True), (''c'', True)]\<rparr>)
     \<lparr>getId = ENTRY_INSERTED, getEventKey = ''k'', getFilteridsList = []\<rparr> =
   (Some ''thrown by boom'', [(''a'', ENTRY_INSERTED), (''boom'', ENTRY_INSERTED)])"
  by (simp add: notifyListeners_def Map_keys_def plain_env_def ListenerGroup_new_def)

text \<open>
  Claim C5, amended. \<^verbatim>\<open>notifyListeners\<close> calls the listeners in insertion order and catches
  nothing. When no listener throws, every listener is called once and the loop returns
  normally. Otherwise the listeners before the first one that throws are called, then that
  one, and its error leaves the loop: no listener after it is called. (An event whose id is
  none of the three entry events calls no listener.)
\<close>

theorem C5_dispatch_stops_at_first_throw:
  "notifyListeners env g ev =
     (if getId ev = OTHER_ID then (None, [])
      else
        (case dropWhile (\<lambda>l. listenerSink env l (getId ev) ev = None) (Map_keys (listeners g)) of
           [] \<Rightarrow> (None, map (\<lambda>l. (l, getId ev)) (Map_keys (listeners g)))
         | l # rest \<Rightarrow>
             (listenerSink env l (getId ev) ev,
              map (\<lambda>l. (l, getId ev))
                (takeWhile (\<lambda>l. listenerSink env l (getId ev) ev = None) (Map_keys (listeners g))
                 @ [l]))))"
  by (simp add: notifyListeners_def notify_loop_char notify_loop_other)

end
